theory Spec2Isabelle
  imports Complex_Main
begin

text \<open>
  Three classes of the backend are modelled, each as state passing over a record of its
  fields, with the effects of an operation returned as a list:
  \<^item> \<open>RealFiMcpService\<close>, which sends requests over a WebSocket and matches the responses
    to them by id (\<open>sendRequest\<close>, the message handler, the timers, \<open>disconnect\<close>);
  \<^item> \<open>FiMcpService\<close>, whose \<open>connectStream\<close> keeps a stream open with reconnection and a
    ping interval;
  \<^item> \<open>FiMcpClient\<close>, which calls the tools of the MCP server (\<open>verifyPasscode\<close>,
    \<open>fetchAllFinancialData\<close>, \<open>authenticateWithPhone\<close>, \<open>getConnectionStatus\<close>).
  The definitions come first, the properties after them.
\<close>

section \<open>JSON values as the JavaScript code sees them\<close>

text \<open>
  The services exchange JSON text. What \<open>JSON.parse\<close> returns is a value of the
  following type; a number is given by its value. Reading a property that is absent
  gives \<open>undefined\<close>, which is \<open>None\<close> here.
\<close>

datatype jvalue =
    JNull
  | JBool bool
  | JNum rat
  | JStr string
  | JArr "jvalue list"
  | JObj "(string \<times> jvalue) list"

datatype js_exn = SyntaxError | TypeError

text \<open>An \<open>Error\<close> object, given by the argument of \<open>new Error(...)\<close>.\<close>

datatype js_error = Error jvalue

text \<open>JavaScript truthiness: \<open>null\<close>, \<open>false\<close>, \<open>0\<close> and the empty string are falsy.\<close>

fun truthy :: "jvalue \<Rightarrow> bool" where
  "truthy JNull = False"
| "truthy (JBool b) = b"
| "truthy (JNum q) = (q \<noteq> 0)"
| "truthy (JStr t) = (t \<noteq> [])"
| "truthy (JArr xs) = True"
| "truthy (JObj kvs) = True"

fun truthy_opt :: "jvalue option \<Rightarrow> bool" where
  "truthy_opt None = False"
| "truthy_opt (Some v) = truthy v"

text \<open>
  \<open>v.k\<close> for a value \<open>v\<close> that is not \<open>null\<close> and one of the keys the code reads
  (\<open>type\<close>, \<open>id\<close>, \<open>error\<close>, \<open>result\<close>, \<open>message\<close>, \<open>method\<close>, \<open>params\<close>, \<open>status\<close>,
  \<open>login_url\<close>): an object gives the member, a number, string, boolean or array gives
  \<open>undefined\<close>. On \<open>null\<close> the access throws a TypeError, which \<open>read_prop\<close> returns.
\<close>

fun jprop :: "jvalue \<Rightarrow> string \<Rightarrow> jvalue option" where
  "jprop (JObj kvs) k = map_of kvs k"
| "jprop v k = None"

fun read_prop :: "jvalue \<Rightarrow> string \<Rightarrow> js_exn + jvalue option" where
  "read_prop JNull k = Inl TypeError"
| "read_prop v k = Inr (jprop v k)"

text \<open>\<open>a || b\<close> where \<open>b\<close> is a value.\<close>

fun or_else :: "jvalue option \<Rightarrow> jvalue \<Rightarrow> jvalue" where
  "or_else None d = d"
| "or_else (Some v) d = (if truthy v then v else d)"

section \<open>RealFiMcpService: requests correlated by id over one socket\<close>

subsection \<open>Request identifiers\<close>

text \<open>The id of a request is \<open>req_\<close> followed by the counter in decimal.\<close>

definition digit :: "nat \<Rightarrow> char" where
  "digit d =
     (if d = 0 then CHR ''0'' else if d = 1 then CHR ''1'' else if d = 2 then CHR ''2''
      else if d = 3 then CHR ''3'' else if d = 4 then CHR ''4'' else if d = 5 then CHR ''5''
      else if d = 6 then CHR ''6'' else if d = 7 then CHR ''7'' else if d = 8 then CHR ''8''
      else CHR ''9'')"

fun dec :: "nat \<Rightarrow> string" where
  "dec n = (if n < 10 then [digit n] else dec (n div 10) @ [digit (n mod 10)])"

declare dec.simps [simp del]

definition req_id :: "nat \<Rightarrow> string" where
  "req_id n = ''req_'' @ dec n"

subsection \<open>State\<close>

text \<open>
  A promise made by \<open>sendRequest\<close> is named by a number; the table entry
  \<open>{resolve, reject}\<close> of a request is the name of its promise. A timer of
  \<open>setTimeout\<close> is its deadline and its callback: the callback of \<open>sendRequest\<close>
  holds the request id and the \<open>reject\<close> of its promise, the callback of
  \<open>scheduleReconnect\<close> holds nothing.

  Every call of \<open>initialize\<close> makes a socket. The sockets made so far are kept in a
  list, each with the \<open>readyState\<close> the socket library keeps for it and with what
  there is to know of the promise that its call of \<open>initialize\<close> returned: whether
  \<open>console.error\<close> was attached to it by \<open>catch\<close> (as the reconnect timer does), and
  whether it has been resolved or rejected already. \<open>this.ws\<close> is the position of a
  socket in that list, or \<open>null\<close>.
\<close>

datatype timer_cb = RequestTimeout string nat | ReconnectAttempt

datatype ready_state = CONNECTING | OPEN | CLOSING | CLOSED

record websocket =
  readyState :: ready_state
  caught :: bool
  initSettled :: bool

record service =
  socks :: "websocket list"               \<comment> \<open>the sockets made so far, of the runtime\<close>
  ws :: "nat option"
  isConnected :: bool
  authToken :: "string option"
  messageId :: nat
  pendingRequests :: "string \<rightharpoonup> nat"
  clock :: nat                            \<comment> \<open>milliseconds, of the runtime\<close>
  timers :: "(nat \<times> timer_cb) list"       \<comment> \<open>timers set and not yet run, of the runtime\<close>

datatype effect =
    Resolve nat "jvalue option"           \<comment> \<open>\<open>resolve(v)\<close> of the promise\<close>
  | Reject nat js_error                   \<comment> \<open>\<open>reject(e)\<close> of the promise\<close>
  | Threw js_error                        \<comment> \<open>an async function threw: its own promise is rejected\<close>
  | WsNew
  | ResolveInitialize nat                 \<comment> \<open>\<open>resolve()\<close> in the open handler of the socket\<close>
  | RejectInitialize nat                  \<comment> \<open>\<open>reject(error)\<close> in the error handler of the socket\<close>
  | WsSend jvalue                         \<comment> \<open>the call \<open>ws.send(text)\<close>\<close>
  | WsCloseCall
  | ConsoleLog
  | ConsoleError

definition new_service :: service where
  "new_service =
     \<lparr>socks = [], ws = None, isConnected = False, authToken = None, messageId = 0,
      pendingRequests = Map.empty, clock = 0, timers = []\<rparr>"

subsection \<open>Operations\<close>

text \<open>
  \<open>initialize\<close> makes a new socket, which is connecting, and registers the handlers
  \<open>open_handler\<close>, \<open>error_handler\<close> and \<open>close_handler\<close> on it. The reconnect timer calls
  \<open>this.initialize().catch(console.error)\<close>; any other caller gets the promise.
\<close>

definition make_socket :: "bool \<Rightarrow> service \<Rightarrow> service \<times> effect list" where
  "make_socket by_timer s =
     (s\<lparr>socks := socks s @ [\<lparr>readyState = CONNECTING, caught = by_timer, initSettled = False\<rparr>],
        ws := Some (length (socks s))\<rparr>,
      [ConsoleLog, WsNew])"

definition initialize :: "service \<Rightarrow> service \<times> effect list" where
  "initialize s = make_socket False s"

text \<open>
  The handlers of socket \<open>k\<close>. The open handler also calls \<open>setupMessageHandlers\<close>, which
  registers \<open>message_handler\<close> below on \<open>this.ws\<close>. A rejection of the promise of
  \<open>initialize\<close> that is the first to settle it is logged where \<open>console.error\<close> was
  attached.
\<close>

definition open_handler :: "nat \<Rightarrow> service \<Rightarrow> service \<times> effect list" where
  "open_handler k s =
     (s\<lparr>isConnected := True, socks := (socks s)[k := (socks s ! k)\<lparr>initSettled := True\<rparr>]\<rparr>,
      [ConsoleLog, ResolveInitialize k])"

definition error_handler :: "nat \<Rightarrow> service \<Rightarrow> service \<times> effect list" where
  "error_handler k s =
     (s\<lparr>socks := (socks s)[k := (socks s ! k)\<lparr>initSettled := True\<rparr>]\<rparr>,
      [ConsoleError, RejectInitialize k] @
      (if caught (socks s ! k) \<and> \<not> initSettled (socks s ! k) then [ConsoleError] else []))"

definition scheduleReconnect :: "service \<Rightarrow> service" where
  "scheduleReconnect s = s\<lparr>timers := timers s @ [(clock s + 5000, ReconnectAttempt)]\<rparr>"

definition close_handler :: "service \<Rightarrow> service \<times> effect list" where
  "close_handler s = (scheduleReconnect (s\<lparr>isConnected := False\<rparr>), [ConsoleLog])"

text \<open>\<open>this.pendingRequests.get(k)\<close>: the keys are strings, so only a string finds one.\<close>

fun pending_get :: "service \<Rightarrow> jvalue option \<Rightarrow> nat option" where
  "pending_get s (Some (JStr k)) = pendingRequests s k"
| "pending_get s v = None"

fun pending_delete :: "service \<Rightarrow> jvalue option \<Rightarrow> service" where
  "pending_delete s (Some (JStr k)) = s\<lparr>pendingRequests := (pendingRequests s)(k := None)\<rparr>"
| "pending_delete s v = s"

definition handleNotification :: "jvalue \<Rightarrow> effect list" where
  "handleNotification message = [ConsoleLog, ConsoleLog]"

text \<open>
  What the handler does with the entry it found: \<open>reject\<close> with an Error made of
  \<open>message.error.message || 'MCP Error'\<close> when \<open>message.error\<close> is truthy, \<open>resolve\<close>
  with \<open>message.result\<close> otherwise.
\<close>

definition settle :: "nat \<Rightarrow> jvalue \<Rightarrow> effect" where
  "settle pending message =
     (if truthy_opt (jprop message ''error'')
      then Reject pending
             (Error (or_else (jprop (the (jprop message ''error'')) ''message'')
                             (JStr ''MCP Error'')))
      else Resolve pending (jprop message ''result''))"

text \<open>
  The body of the \<open>try\<close> in the message handler. The frame is given by what
  \<open>JSON.parse(data.toString())\<close> makes of it: a SyntaxError or a value.
\<close>

definition handler_body :: "js_exn + jvalue \<Rightarrow> service \<Rightarrow> js_exn + service \<times> effect list" where
  "handler_body parsed s =
     (case parsed of
        Inl e \<Rightarrow> Inl e
      | Inr message \<Rightarrow>
          (case read_prop message ''type'' of
             Inl e \<Rightarrow> Inl e
           | Inr ty \<Rightarrow>
               if ty = Some (JStr ''response'') then
                 (case pending_get s (jprop message ''id'') of
                    None \<Rightarrow> Inr (s, [])
                  | Some pending \<Rightarrow>
                      Inr (pending_delete s (jprop message ''id''), [settle pending message]))
               else if ty = Some (JStr ''notification'') then
                 Inr (s, handleNotification message)
               else Inr (s, [])))"

text \<open>The handler: the \<open>catch\<close> logs whatever the body threw.\<close>

definition message_handler :: "js_exn + jvalue \<Rightarrow> service \<Rightarrow> js_exn + service \<times> effect list" where
  "message_handler parsed s =
     (case handler_body parsed s of
        Inl e \<Rightarrow> Inr (s, [ConsoleError])
      | Inr r \<Rightarrow> Inr r)"

text \<open>
  \<open>ws.send\<close> of the socket library throws on a socket that is still connecting, and
  returns on any other (it writes on an open socket and drops the text on a closing or
  closed one).
\<close>

definition send_throws :: "service \<Rightarrow> bool" where
  "send_throws s =
     (case ws s of
        None \<Rightarrow> False
      | Some k \<Rightarrow> k < length (socks s) \<and> readyState (socks s ! k) = CONNECTING)"

text \<open>
  \<open>sendRequest\<close>: the result is the error thrown, or the new state, the name of the
  promise returned and the effects. \<open>JSON.stringify\<close> leaves an undefined \<open>params\<close> out.
  The entry is put in the table, then the text is written, then the timer is set: when
  \<open>ws.send\<close> throws, inside the executor of the promise, the promise is rejected with
  what was thrown, the entry is in the table and no timer is set.
\<close>

definition request_message :: "string \<Rightarrow> string \<Rightarrow> jvalue option \<Rightarrow> jvalue" where
  "request_message mid methodName parameters =
     JObj ([(''id'', JStr mid), (''type'', JStr ''request''), (''method'', JStr methodName)]
           @ (case parameters of None \<Rightarrow> [] | Some v \<Rightarrow> [(''params'', v)]))"

definition sendRequest ::
  "string \<Rightarrow> jvalue option \<Rightarrow> service \<Rightarrow> js_error + service \<times> nat \<times> effect list" where
  "sendRequest methodName parameters s =
     (if \<not> isConnected s \<or> ws s = None then Inl (Error (JStr ''Not connected to Fi MCP Server''))
      else
        let n = messageId s + 1; mid = req_id n;
            s1 = s\<lparr>messageId := n, pendingRequests := (pendingRequests s)(mid \<mapsto> n)\<rparr>
        in if send_throws s
           then Inr (s1, n,
                     [WsSend (request_message mid methodName parameters),
                      Reject n (Error (JStr ''WebSocket is not open: readyState 0 (CONNECTING)''))])
           else Inr (s1\<lparr>timers := timers s @ [(clock s + 30000, RequestTimeout mid n)]\<rparr>, n,
                     [WsSend (request_message mid methodName parameters)]))"

text \<open>The callbacks of the timers.\<close>

fun timer_callback :: "timer_cb \<Rightarrow> service \<Rightarrow> service \<times> effect list" where
  "timer_callback (RequestTimeout mid p) s =
     (if pendingRequests s mid \<noteq> None
      then (s\<lparr>pendingRequests := (pendingRequests s)(mid := None)\<rparr>,
            [Reject p (Error (JStr ''Request timeout''))])
      else (s, []))"
| "timer_callback ReconnectAttempt s =
     (if \<not> isConnected s
      then (case make_socket True s of (s', es) \<Rightarrow> (s', ConsoleLog # es))
      else (s, []))"

text \<open>\<open>disconnect\<close>: \<open>ws.close()\<close> leaves a socket that is not closed yet closing.\<close>

definition disconnect :: "service \<Rightarrow> service \<times> effect list" where
  "disconnect s =
     (case ws s of
        None \<Rightarrow>
          (s\<lparr>isConnected := False, authToken := None, pendingRequests := Map.empty\<rparr>, [])
      | Some k \<Rightarrow>
          (s\<lparr>socks := (socks s)[k := (socks s ! k)\<lparr>readyState :=
                 (if readyState (socks s ! k) = CLOSED then CLOSED else CLOSING)\<rparr>],
             ws := None, isConnected := False, authToken := None,
             pendingRequests := Map.empty\<rparr>,
           [WsCloseCall]))"

subsection \<open>The runtime: events in the order they are handled\<close>

fun run_callbacks :: "timer_cb list \<Rightarrow> service \<Rightarrow> service \<times> effect list" where
  "run_callbacks [] s = (s, [])"
| "run_callbacks (c # cs) s =
     (case timer_callback c s of (s1, es1) \<Rightarrow>
        (case run_callbacks cs s1 of (s2, es2) \<Rightarrow> (s2, es1 @ es2)))"

text \<open>
  The events are the calls of the public operations and of \<open>sendRequest\<close>, the events of
  the sockets, and the passing of time. An open, error or close event names the socket
  that emits it (one made so far, or nothing happens), and the library has set the
  \<open>readyState\<close> when the handler of an open or close event runs. A message event is one
  run of the message handler. When time passes, the timers whose deadline is reached run,
  earlier deadline first and in the order they were set where deadlines are equal.
\<close>

definition elapse :: "nat \<Rightarrow> service \<Rightarrow> service \<times> effect list" where
  "elapse d s =
     (let t = clock s + d;
          due = sort_key fst (filter (\<lambda>x. fst x \<le> t) (timers s));
          rest = filter (\<lambda>x. \<not> fst x \<le> t) (timers s)
      in run_callbacks (map snd due) (s\<lparr>clock := t, timers := rest\<rparr>))"

datatype event =
    CallInitialize
  | CallSendRequest string "jvalue option"
  | CallDisconnect
  | WsOpen nat
  | WsError nat
  | WsClose nat
  | WsMessage "js_exn + jvalue"
  | Elapse nat

fun step :: "event \<Rightarrow> service \<Rightarrow> service \<times> effect list" where
  "step CallInitialize s = initialize s"
| "step (CallSendRequest methodName parameters) s =
     (case sendRequest methodName parameters s of
        Inl e \<Rightarrow> (s, [Threw e])
      | Inr (s', p, es) \<Rightarrow> (s', es))"
| "step CallDisconnect s = disconnect s"
| "step (WsOpen k) s =
     (if k < length (socks s)
      then open_handler k (s\<lparr>socks := (socks s)[k := (socks s ! k)\<lparr>readyState := OPEN\<rparr>]\<rparr>)
      else (s, []))"
| "step (WsError k) s = (if k < length (socks s) then error_handler k s else (s, []))"
| "step (WsClose k) s =
     (if k < length (socks s)
      then close_handler (s\<lparr>socks := (socks s)[k := (socks s ! k)\<lparr>readyState := CLOSED\<rparr>]\<rparr>)
      else (s, []))"
| "step (WsMessage parsed) s =
     (case message_handler parsed s of
        Inl e \<Rightarrow> (s, [])
      | Inr r \<Rightarrow> r)"
| "step (Elapse d) s = elapse d s"

fun run :: "event list \<Rightarrow> service \<Rightarrow> service \<times> effect list" where
  "run [] s = (s, [])"
| "run (e # es) s =
     (case step e s of (s1, out1) \<Rightarrow>
        (case run es s1 of (s2, out2) \<Rightarrow> (s2, out1 @ out2)))"

text \<open>The calls of \<open>resolve\<close> and \<open>reject\<close> of one promise among some effects.\<close>

fun settles :: "nat \<Rightarrow> effect \<Rightarrow> bool" where
  "settles p (Resolve q v) = (q = p)"
| "settles p (Reject q e) = (q = p)"
| "settles p x = False"

text \<open>The calls of \<open>resolve\<close> and \<open>reject\<close> of any promise of a request.\<close>

fun is_settle :: "effect \<Rightarrow> bool" where
  "is_settle (Resolve q v) = True"
| "is_settle (Reject q e) = True"
| "is_settle x = False"

subsection \<open>Well-formed states\<close>

text \<open>
  What holds of the table and the timers in every state the service reaches: an entry
  stands under the id of its own promise, a promise already made; a request timer holds
  the id of its own promise, a promise already made, and a deadline that is ahead and
  at most 30 seconds away.
\<close>

definition wf :: "service \<Rightarrow> bool" where
  "wf s \<longleftrightarrow>
     (\<forall>k q. pendingRequests s k = Some q \<longrightarrow> k = req_id q \<and> q \<le> messageId s)
   \<and> (\<forall>dl k q. (dl, RequestTimeout k q) \<in> set (timers s) \<longrightarrow>
        k = req_id q \<and> q \<le> messageId s \<and> clock s < dl \<and> dl \<le> clock s + 30000)"

section \<open>FiMcpService: the stream connection of a user\<close>

text \<open>
  \<open>connectStream\<close> makes a socket and a connection object and registers handlers that
  hold both. The objects made so far are kept in a list; a closure holds an object by
  its position. The \<open>readyState\<close> of a socket is kept by the socket library, as above.
\<close>

record connection =
  userId :: string
  socket :: nat
  isActive :: bool
  reconnectAttempts :: nat
  lastPing :: nat

text \<open>
  The callback of the \<open>setTimeout\<close> in the close handler holds the connection object of
  the handler, the user id and the credentials.
\<close>

datatype reconnect_cb = Reconnect nat string string

record stream_service =
  heap :: "connection list"
  held :: "string list"                    \<comment> \<open>the credentials the handlers of each object hold\<close>
  sockets :: "ready_state list"
  connections :: "string \<rightharpoonup> nat"
  timeouts :: "(nat \<times> reconnect_cb) list"   \<comment> \<open>deadline and callback, in the order set\<close>
  intervals :: "nat \<rightharpoonup> nat"              \<comment> \<open>connection object to the next run of its \<open>pingInterval\<close>\<close>
  now :: nat                               \<comment> \<open>milliseconds\<close>

datatype stream_effect =
    NewSocket nat
  | SendSubscribe nat
  | SetTimeout nat                         \<comment> \<open>the delay in milliseconds\<close>
  | Ping nat
  | ClearInterval nat
  | Log

definition new_stream_service :: stream_service where
  "new_stream_service =
     \<lparr>heap = [], held = [], sockets = [], connections = Map.empty, timeouts = [],
      intervals = Map.empty, now = 0\<rparr>"

definition connectStream :: "string \<Rightarrow> string \<Rightarrow> stream_service \<Rightarrow> stream_service \<times> stream_effect list" where
  "connectStream uid credentials s =
     (let ws = length (sockets s);
          c = length (heap s);
          connection = \<lparr>userId = uid, socket = ws, isActive = False,
                        reconnectAttempts = 0, lastPing = now s\<rparr>
      in (s\<lparr>heap := heap s @ [connection],
            held := held s @ [credentials],
            sockets := sockets s @ [CONNECTING],
            intervals := (intervals s)(c \<mapsto> now s + 30000),
            connections := (connections s)(uid \<mapsto> c)\<rparr>,
          [NewSocket ws]))"

text \<open>The handlers of the socket of connection object \<open>c\<close>.\<close>

definition open_cb :: "nat \<Rightarrow> stream_service \<Rightarrow> stream_service \<times> stream_effect list" where
  "open_cb c s =
     (s\<lparr>heap := (heap s)[c := (heap s ! c)\<lparr>isActive := True, reconnectAttempts := 0\<rparr>]\<rparr>,
      [Log, SendSubscribe (socket (heap s ! c))])"

definition close_cb ::
  "nat \<Rightarrow> nat \<Rightarrow> stream_service \<Rightarrow> stream_service \<times> stream_effect list" where
  "close_cb c code s =
     (let s1 = s\<lparr>heap := (heap s)[c := (heap s ! c)\<lparr>isActive := False\<rparr>]\<rparr>;
          connection = heap s1 ! c
      in if code \<noteq> 1000 \<and> reconnectAttempts connection < 5
         then (s1\<lparr>timeouts := timeouts s1 @
                     [(now s1 + 2 ^ reconnectAttempts connection * 1000,
                       Reconnect c (userId connection) (held s ! c))]\<rparr>,
               [Log, SetTimeout (2 ^ reconnectAttempts connection * 1000)])
         else (s1, [Log]))"

definition error_cb :: "nat \<Rightarrow> stream_service \<Rightarrow> stream_service \<times> stream_effect list" where
  "error_cb c s = (s\<lparr>heap := (heap s)[c := (heap s ! c)\<lparr>isActive := False\<rparr>]\<rparr>, [Log])"

definition pong_cb :: "nat \<Rightarrow> stream_service \<Rightarrow> stream_service \<times> stream_effect list" where
  "pong_cb c s = (s\<lparr>heap := (heap s)[c := (heap s ! c)\<lparr>lastPing := now s\<rparr>]\<rparr>, [])"

text \<open>The callback of the timeout set by the close handler.\<close>

fun reconnect_callback :: "reconnect_cb \<Rightarrow> stream_service \<Rightarrow> stream_service \<times> stream_effect list" where
  "reconnect_callback (Reconnect c uid credentials) s =
     connectStream uid credentials
       (s\<lparr>heap := (heap s)[c := (heap s ! c)\<lparr>reconnectAttempts := reconnectAttempts (heap s ! c) + 1\<rparr>]\<rparr>)"

text \<open>The callback of \<open>pingInterval\<close>, every 30000 ms until it clears itself.\<close>

definition ping_callback :: "nat \<Rightarrow> stream_service \<Rightarrow> stream_service \<times> stream_effect list" where
  "ping_callback c s =
     (if isActive (heap s ! c) \<and> sockets s ! socket (heap s ! c) = OPEN
      then (s\<lparr>heap := (heap s)[c := (heap s ! c)\<lparr>lastPing := now s\<rparr>]\<rparr>, [Ping (socket (heap s ! c))])
      else (s\<lparr>intervals := (intervals s)(c := None)\<rparr>, [ClearInterval c]))"

text \<open>
  The events, in the order the runtime handles them. A socket event names the connection
  object whose socket emits it; the library has set the \<open>readyState\<close> when the handler
  runs. A timeout or an interval runs only when it is set and due. Events that name no
  object made so far do not happen.
\<close>

datatype stream_event =
    ConnectStream string string
  | SockOpen nat
  | SockClose nat nat
  | SockError nat
  | SockPong nat
  | Advance nat
  | RunTimeout nat
  | RunInterval nat

fun stream_step :: "stream_event \<Rightarrow> stream_service \<Rightarrow> stream_service \<times> stream_effect list" where
  "stream_step (ConnectStream uid credentials) s = connectStream uid credentials s"
| "stream_step (SockOpen c) s =
     (if c < length (heap s)
      then open_cb c (s\<lparr>sockets := (sockets s)[socket (heap s ! c) := OPEN]\<rparr>)
      else (s, []))"
| "stream_step (SockClose c code) s =
     (if c < length (heap s)
      then close_cb c code (s\<lparr>sockets := (sockets s)[socket (heap s ! c) := CLOSED]\<rparr>)
      else (s, []))"
| "stream_step (SockError c) s = (if c < length (heap s) then error_cb c s else (s, []))"
| "stream_step (SockPong c) s = (if c < length (heap s) then pong_cb c s else (s, []))"
| "stream_step (Advance d) s = (s\<lparr>now := now s + d\<rparr>, [])"
| "stream_step (RunTimeout k) s =
     (if k < length (timeouts s) \<and> fst (timeouts s ! k) \<le> now s
      then reconnect_callback (snd (timeouts s ! k))
             (s\<lparr>timeouts := take k (timeouts s) @ drop (Suc k) (timeouts s)\<rparr>)
      else (s, []))"
| "stream_step (RunInterval c) s =
     (case intervals s c of
        None \<Rightarrow> (s, [])
      | Some due \<Rightarrow>
          if due \<le> now s
          then ping_callback c (s\<lparr>intervals := (intervals s)(c \<mapsto> due + 30000)\<rparr>)
          else (s, []))"

fun stream_run :: "stream_event list \<Rightarrow> stream_service \<Rightarrow> stream_service \<times> stream_effect list" where
  "stream_run [] s = (s, [])"
| "stream_run (e # es) s =
     (case stream_step e s of (s1, out1) \<Rightarrow>
        (case stream_run es s1 of (s2, out2) \<Rightarrow> (s2, out1 @ out2)))"

text \<open>
  A round of a connection that fails: the socket of object \<open>c\<close> emits an error and
  closes abnormally (code 1006), the delay set passes, the timeout runs.
\<close>

definition failed_round :: "nat \<Rightarrow> stream_event list" where
  "failed_round c = [SockError c, SockClose c 1006, Advance 1000, RunTimeout 0]"

fun failed_rounds :: "nat \<Rightarrow> stream_event list" where
  "failed_rounds 0 = []"
| "failed_rounds (Suc n) = failed_rounds n @ failed_round n"

fun delays :: "stream_effect list \<Rightarrow> nat list" where
  "delays [] = []"
| "delays (SetTimeout d # es) = d # delays es"
| "delays (e # es) = delays es"

fun sockets_made :: "stream_effect list \<Rightarrow> nat" where
  "sockets_made [] = 0"
| "sockets_made (NewSocket w # es) = Suc (sockets_made es)"
| "sockets_made (e # es) = sockets_made es"

text \<open>
  Probe intervals during which no pong arrives: 30000 ms pass and the interval of object
  \<open>c\<close> runs, \<open>n\<close> times over.
\<close>

fun silent_intervals :: "nat \<Rightarrow> nat \<Rightarrow> stream_event list" where
  "silent_intervals c 0 = []"
| "silent_intervals c (Suc n) = [Advance 30000, RunInterval c] @ silent_intervals c n"

section \<open>FiMcpClient: tools called through the MCP client\<close>

text \<open>
  What a call of \<open>this.client.callTool\<close> throws is an Error, given by its message, and
  what \<open>JSON.parse\<close> throws is a SyntaxError. A tool response is its \<open>content\<close>, each item
  a \<open>type\<close> and a \<open>text\<close>. Both \<open>callTool\<close> and \<open>JSON.parse\<close> are parameters of the
  operations below: \<open>callTool name arguments\<close> is the message of the Error thrown or the
  response, and \<open>JSON_parse text\<close> is \<open>None\<close> where the parser throws.
\<close>

datatype thrown = Err string | JsonSyntaxError

type_synonym tool_response = "(string \<times> string) list"

record client_state =
  client :: bool                               \<comment> \<open>\<open>this.client\<close> is not \<open>null\<close>\<close>
  transport :: bool
  clientIsConnected :: bool                    \<comment> \<open>the field \<open>isConnected\<close>\<close>
  authenticatedPhoneNumber :: "string option"
  authenticatedPasscode :: "string option"

text \<open>\<open>!v\<close> for a field that is a string or \<open>null\<close>.\<close>

fun absent :: "string option \<Rightarrow> bool" where
  "absent None = True"
| "absent (Some t) = (t = [])"

text \<open>\<open>response.content[0]?.text || d\<close>\<close>

fun first_text :: "tool_response \<Rightarrow> string \<Rightarrow> string" where
  "first_text [] d = d"
| "first_text ((ty, text) # rest) d = (if text = [] then d else text)"

datatype pending_status = Pending

record auth_start =
  start_status :: pending_status
  start_message :: string

definition authenticateWithPhone :: "string \<Rightarrow> client_state \<Rightarrow> client_state \<times> auth_start" where
  "authenticateWithPhone phoneNumber s =
     (s\<lparr>authenticatedPhoneNumber := Some phoneNumber\<rparr>,
      \<lparr>start_status = Pending,
       start_message = ''Please get your passcode from the Fi Money app: Net Worth Dashboard > Talk to AI > Get Passcode''\<rparr>)"

record connection_status =
  connected :: bool
  authenticated :: bool
  phoneNumber :: "string option"

definition getConnectionStatus :: "client_state \<Rightarrow> connection_status" where
  "getConnectionStatus s =
     \<lparr>connected = clientIsConnected s,
      authenticated = (\<not> absent (authenticatedPhoneNumber s)),
      phoneNumber = (if absent (authenticatedPhoneNumber s) then None else authenticatedPhoneNumber s)\<rparr>"

text \<open>
  The controller \<open>authenticateUser\<close> in front of \<open>authenticateWithPhone\<close>: the phone number
  of the request body (\<open>None\<close> when it has none) and the client of the module
  (\<open>None\<close> before it is made). The result is the HTTP status of the refusal, or the new
  client and what \<open>authenticateWithPhone\<close> returned.
\<close>

definition authenticateUser ::
  "string option \<Rightarrow> client_state option \<Rightarrow> nat + client_state \<times> auth_start" where
  "authenticateUser phone fiMcpClient =
     (if absent phone then Inl 400
      else case fiMcpClient of
             None \<Rightarrow> Inl 500
           | Some s \<Rightarrow> Inr (authenticateWithPhone (the phone) s))"

subsection \<open>verifyPasscode\<close>

datatype auth_status = Authenticated | Failed

record verify_result =
  status :: auth_status
  message :: jvalue
  token :: "string option"
  data :: "jvalue option"
  loginUrl :: "jvalue option"

text \<open>\<open>toLowerCase\<close> on the letters A to Z, and \<open>includes\<close> of strings.\<close>

definition lower_char :: "char \<Rightarrow> char" where
  "lower_char c =
     (if 65 \<le> (of_char c :: nat) \<and> (of_char c :: nat) \<le> 90 then char_of (of_char c + (32 :: nat)) else c)"

definition toLowerCase :: "string \<Rightarrow> string" where
  "toLowerCase t = map lower_char t"

fun starts_with :: "string \<Rightarrow> string \<Rightarrow> bool" where
  "starts_with t [] = True"
| "starts_with [] (c # w) = False"
| "starts_with (d # t) (c # w) = (d = c \<and> starts_with t w)"

fun includes_text :: "string \<Rightarrow> string \<Rightarrow> bool" where
  "includes_text [] w = (w = [])"
| "includes_text (d # t) w = (starts_with (d # t) w \<or> includes_text t w)"

definition is_object :: "jvalue \<Rightarrow> bool" where
  "is_object v = (case v of JObj kvs \<Rightarrow> True | JArr xs \<Rightarrow> True | _ \<Rightarrow> False)"

definition failed :: "jvalue \<Rightarrow> verify_result" where
  "failed m = \<lparr>status = Failed, message = m, token = None, data = None, loginUrl = None\<rparr>"

text \<open>The inner \<open>try\<close> with its \<open>catch\<close>: \<open>None\<close> when neither returns.\<close>

definition inspect_payload ::
  "(string \<Rightarrow> jvalue option) \<Rightarrow> string \<Rightarrow> string \<Rightarrow> verify_result option" where
  "inspect_payload JSON_parse passcode resultText =
     (case JSON_parse resultText of
        None \<Rightarrow>
          if includes_text (toLowerCase resultText) ''invalid'' \<or>
             includes_text (toLowerCase resultText) ''error'' \<or>
             includes_text (toLowerCase resultText) ''unauthorized'' \<or>
             includes_text (toLowerCase resultText) ''authentication''
          then Some (failed (JStr (if resultText = []
                                     then ''Invalid passcode. Please check and try again.''
                                     else resultText)))
          else None
      | Some d \<Rightarrow>
          if truthy d \<and> jprop d ''status'' = Some (JStr ''login_required'') \<and>
             truthy_opt (jprop d ''login_url'')
          then Some \<lparr>status = Failed,
                     message = JStr ''Login required. Please visit the login URL first.'',
                     token = None, data = None, loginUrl = jprop d ''login_url''\<rparr>
          else if truthy d \<and> is_object d \<and> \<not> truthy_opt (jprop d ''error'') \<and>
                  jprop d ''status'' \<noteq> Some (JStr ''login_required'')
          then Some \<lparr>status = Authenticated,
                     message = JStr ''Successfully authenticated with Fi MCP!'',
                     token = Some passcode, data = Some d, loginUrl = None\<rparr>
          else if truthy d \<and> truthy_opt (jprop d ''error'')
          then Some (failed (or_else (jprop d ''error'') (JStr ''Authentication failed'')))
          else None)"

definition credentials_args :: "string \<Rightarrow> string \<Rightarrow> jvalue" where
  "credentials_args phone passcode = JObj [(''phone'', JStr phone), (''passcode'', JStr passcode)]"

definition verifyPasscode ::
  "(string \<Rightarrow> jvalue option) \<Rightarrow> (string \<Rightarrow> jvalue \<Rightarrow> string + tool_response) \<Rightarrow>
   string \<Rightarrow> string \<Rightarrow> client_state \<Rightarrow> client_state \<times> verify_result" where
  "verifyPasscode JSON_parse callTool phone passcode s =
     (if \<not> client s \<or> \<not> clientIsConnected s
      then (s, failed (JStr ''Fi MCP Client not connected''))
      else
        let s1 = s\<lparr>authenticatedPhoneNumber := Some phone, authenticatedPasscode := Some passcode\<rparr>
        in case callTool ''fetch_net_worth'' (credentials_args phone passcode) of
             Inl m \<Rightarrow>
               (s1, failed (JStr (if m = []
                  then ''Passcode verification failed. Please check your passcode and try again.''
                  else m)))
           | Inr response \<Rightarrow>
               (case inspect_payload JSON_parse passcode (first_text response []) of
                  Some r \<Rightarrow> (s1, r)
                | None \<Rightarrow> (s1, failed (JStr ''Unable to verify passcode. Please try again.''))))"

subsection \<open>The data tools and fetchAllFinancialData\<close>

definition guard :: "client_state \<Rightarrow> thrown option" where
  "guard s =
     (if \<not> client s \<or> \<not> clientIsConnected s then Some (Err ''Client not initialized'')
      else if absent (authenticatedPhoneNumber s) \<or> absent (authenticatedPasscode s)
      then Some (Err ''Not authenticated. Please authenticate first.'')
      else None)"

definition stored_args :: "client_state \<Rightarrow> jvalue" where
  "stored_args s =
     credentials_args (the (authenticatedPhoneNumber s)) (the (authenticatedPasscode s))"

definition parse_or_throw :: "(string \<Rightarrow> jvalue option) \<Rightarrow> string \<Rightarrow> thrown + jvalue" where
  "parse_or_throw JSON_parse text =
     (case JSON_parse text of None \<Rightarrow> Inl JsonSyntaxError | Some v \<Rightarrow> Inr v)"

text \<open>\<open>getNetWorth\<close>, \<open>getBankTransactions\<close>, \<open>getCreditReport\<close> and \<open>getEPFDetails\<close>
  differ in the tool they call.\<close>

definition call_and_parse ::
  "string \<Rightarrow> (string \<Rightarrow> jvalue option) \<Rightarrow> (string \<Rightarrow> jvalue \<Rightarrow> string + tool_response) \<Rightarrow>
   client_state \<Rightarrow> thrown + jvalue" where
  "call_and_parse tool JSON_parse callTool s =
     (case guard s of
        Some e \<Rightarrow> Inl e
      | None \<Rightarrow>
          (case callTool tool (stored_args s) of
             Inl m \<Rightarrow> Inl (Err m)
           | Inr response \<Rightarrow> parse_or_throw JSON_parse (first_text response ''{}'')))"

definition getNetWorth where "getNetWorth = call_and_parse ''fetch_net_worth''"
definition getBankTransactions where "getBankTransactions = call_and_parse ''fetch_bank_transactions''"
definition getCreditReport where "getCreditReport = call_and_parse ''fetch_credit_report''"
definition getEPFDetails where "getEPFDetails = call_and_parse ''fetch_epf_details''"

definition getPortfolioPerformance ::
  "(string \<Rightarrow> jvalue option) \<Rightarrow> (string \<Rightarrow> jvalue \<Rightarrow> string + tool_response) \<Rightarrow>
   client_state \<Rightarrow> thrown + jvalue" where
  "getPortfolioPerformance JSON_parse callTool s =
     (case guard s of
        Some e \<Rightarrow> Inl e
      | None \<Rightarrow>
          (case callTool ''fetch_mf_transactions'' (stored_args s) of
             Inl m \<Rightarrow> Inl (Err m)
           | Inr mfResponse \<Rightarrow>
               (case callTool ''fetch_stock_transactions'' (stored_args s) of
                  Inl m \<Rightarrow> Inl (Err m)
                | Inr stockResponse \<Rightarrow>
                    (case parse_or_throw JSON_parse (first_text mfResponse ''{}'') of
                       Inl e \<Rightarrow> Inl e
                     | Inr mf \<Rightarrow>
                         (case parse_or_throw JSON_parse (first_text stockResponse ''{}'') of
                            Inl e \<Rightarrow> Inl e
                          | Inr st \<Rightarrow> Inr (JObj [(''mutualFunds'', mf), (''stocks'', st)]))))))"

text \<open>\<open>Promise.allSettled\<close>: each promise gives its value or the reason it was rejected.\<close>

datatype settled = Fulfilled jvalue | Rejected thrown

fun settled_of :: "thrown + jvalue \<Rightarrow> settled" where
  "settled_of (Inl e) = Rejected e"
| "settled_of (Inr v) = Fulfilled v"

text \<open>\<open>x.status === 'fulfilled' ? x.value : null\<close>\<close>

fun value_or_null :: "settled \<Rightarrow> jvalue" where
  "value_or_null (Fulfilled v) = v"
| "value_or_null (Rejected e) = JNull"

record financial_data =
  netWorth :: jvalue
  bankTransactions :: jvalue
  creditReport :: jvalue
  portfolio :: jvalue
  epf :: jvalue

definition fetchAllFinancialData ::
  "(string \<Rightarrow> jvalue option) \<Rightarrow> (string \<Rightarrow> jvalue \<Rightarrow> string + tool_response) \<Rightarrow>
   client_state \<Rightarrow> thrown + financial_data" where
  "fetchAllFinancialData JSON_parse callTool s =
     (let nw = settled_of (getNetWorth JSON_parse callTool s);
          bt = settled_of (getBankTransactions JSON_parse callTool s);
          cr = settled_of (getCreditReport JSON_parse callTool s);
          pf = settled_of (getPortfolioPerformance JSON_parse callTool s);
          ep = settled_of (getEPFDetails JSON_parse callTool s)
      in Inr \<lparr>netWorth = value_or_null nw,
              bankTransactions = value_or_null bt,
              creditReport = value_or_null cr,
              portfolio = value_or_null pf,
              epf = value_or_null ep\<rparr>)"

section \<open>Properties of RealFiMcpService\<close>

lemma digit_inj: "a < 10 \<Longrightarrow> b < 10 \<Longrightarrow> digit a = digit b \<Longrightarrow> a = b"
  by (simp add: digit_def split: if_splits) arith

lemma dec_not_empty: "dec n \<noteq> []"
  by (subst dec.simps) simp

lemma dec_inj: "dec m = dec n \<Longrightarrow> m = n"
proof (induction m arbitrary: n rule: dec.induct)
  case (1 m)
  show ?case
  proof (cases "m < 10")
    case small: True
    show ?thesis
    proof (cases "n < 10")
      case True
      with small "1.prems" show ?thesis
        by (simp add: dec.simps [of m] dec.simps [of n] digit_inj)
    next
      case False
      with small "1.prems" dec_not_empty [of "n div 10"] show ?thesis
        by (simp add: dec.simps [of m] dec.simps [of n])
    qed
  next
    case big: False
    show ?thesis
    proof (cases "n < 10")
      case True
      with big "1.prems" dec_not_empty [of "m div 10"] show ?thesis
        by (simp add: dec.simps [of m] dec.simps [of n])
    next
      case False
      with big "1.prems" have eq: "dec (m div 10) = dec (n div 10)"
        and dg: "digit (m mod 10) = digit (n mod 10)"
        by (simp_all add: dec.simps [of m] dec.simps [of n])
      from "1.IH" [OF big eq] have "m div 10 = n div 10" .
      moreover from dg have "m mod 10 = n mod 10"
        by (intro digit_inj) simp_all
      ultimately show ?thesis
        by (metis div_mult_mod_eq)
    qed
  qed
qed

lemma req_id_inj: "req_id m = req_id n \<Longrightarrow> m = n"
  by (simp add: req_id_def dec_inj)

lemma message_handler_returns: "\<exists>r. message_handler parsed s = Inr r"
  by (simp add: message_handler_def split: sum.splits)

lemma wf_pendingD:
  "wf s \<Longrightarrow> pendingRequests s k = Some q \<Longrightarrow> k = req_id q \<and> q \<le> messageId s"
  unfolding wf_def by blast

lemma wf_timerD:
  "wf s \<Longrightarrow> (dl, RequestTimeout k q) \<in> set (timers s) \<Longrightarrow>
     k = req_id q \<and> q \<le> messageId s \<and> clock s < dl \<and> dl \<le> clock s + 30000"
  unfolding wf_def by blast

lemma wf_new_service: "wf new_service"
  by (simp add: wf_def new_service_def)

lemma wf_delete: "wf s \<Longrightarrow> wf (s\<lparr>pendingRequests := (pendingRequests s)(k := None)\<rparr>)"
  by (auto simp: wf_def)

lemma wf_socks: "wf (s\<lparr>socks := x\<rparr>) = wf s"
  by (simp add: wf_def)

lemma wf_make_socket: "wf s \<Longrightarrow> wf (fst (make_socket b s))"
  by (simp add: wf_def make_socket_def)

lemma wf_open_handler: "wf s \<Longrightarrow> wf (fst (open_handler k s))"
  by (simp add: wf_def open_handler_def)

lemma wf_error_handler: "wf s \<Longrightarrow> wf (fst (error_handler k s))"
  by (simp add: wf_def error_handler_def)

lemma wf_close_handler: "wf s \<Longrightarrow> wf (fst (close_handler s))"
  by (auto simp: wf_def close_handler_def scheduleReconnect_def)

lemma wf_disconnect: "wf s \<Longrightarrow> wf (fst (disconnect s))"
  by (auto simp: wf_def disconnect_def split: option.splits)

text \<open>What a call of \<open>sendRequest\<close> that does not throw leaves behind.\<close>

lemma sendRequest_InrD:
  assumes "sendRequest methodName parameters s = Inr (s', p, es)"
  shows "isConnected s" and "ws s \<noteq> None" and "p = messageId s + 1"
    and "messageId s' = p" and "clock s' = clock s"
    and "pendingRequests s' = (pendingRequests s)(req_id p \<mapsto> p)"
    and "timers s' = (if send_throws s then timers s
                      else timers s @ [(clock s + 30000, RequestTimeout (req_id p) p)])"
    and "es = WsSend (request_message (req_id p) methodName parameters) #
              (if send_throws s
               then [Reject p (Error (JStr ''WebSocket is not open: readyState 0 (CONNECTING)''))]
               else [])"
  using assms by (auto simp: sendRequest_def Let_def split: if_splits)

lemma wf_sendRequest:
  assumes "wf s" and "sendRequest methodName parameters s = Inr (s', p, es)"
  shows "wf s'"
proof -
  note d = sendRequest_InrD [OF assms(2)]
  show ?thesis
    unfolding wf_def
  proof (intro conjI allI impI)
    fix k q assume a: "pendingRequests s' k = Some q"
    then have "(k = req_id p \<and> q = p) \<or> pendingRequests s k = Some q"
      unfolding d(6) by (auto split: if_splits)
    then show "k = req_id q" "q \<le> messageId s'"
      using wf_pendingD [OF assms(1), of k q] d(3,4) by auto
  next
    fix dl k q assume "(dl, RequestTimeout k q) \<in> set (timers s')"
    with d have "(dl, RequestTimeout k q) \<in> set (timers s) \<or>
        (dl = clock s + 30000 \<and> k = req_id p \<and> q = p)"
      by (auto split: if_splits)
    with assms(1) d show "k = req_id q" "q \<le> messageId s'" "clock s' < dl" "dl \<le> clock s' + 30000"
      by (auto dest: wf_timerD)
  qed
qed

lemma pending_get_SomeD:
  "pending_get s v = Some p \<Longrightarrow> \<exists>k. v = Some (JStr k) \<and> pendingRequests s k = Some p"
  by (cases "(s, v)" rule: pending_get.cases) auto

lemma handler_body_InrD:
  assumes "handler_body parsed s = Inr (s', es)"
  shows "(s' = s \<and> (\<forall>p. \<forall>x \<in> set es. \<not> settles p x)) \<or>
         (\<exists>m k p. parsed = Inr m \<and> jprop m ''type'' = Some (JStr ''response'') \<and>
            jprop m ''id'' = Some (JStr k) \<and> pendingRequests s k = Some p \<and>
            s' = s\<lparr>pendingRequests := (pendingRequests s)(k := None)\<rparr> \<and>
            es = [settle p m])"
proof (cases parsed)
  case (Inl e)
  with assms show ?thesis by (simp add: handler_body_def)
next
  case (Inr m)
  show ?thesis
  proof (cases "pending_get s (jprop m ''id'')")
    case None
    with assms Inr show ?thesis
      by (auto simp: handler_body_def handleNotification_def split: sum.splits if_splits)
  next
    case (Some p)
    from pending_get_SomeD [OF Some] obtain k
      where k: "jprop m ''id'' = Some (JStr k)" "pendingRequests s k = Some p" by blast
    with assms Inr Some show ?thesis
      by (cases m) (auto simp: handler_body_def handleNotification_def split: sum.splits if_splits)
  qed
qed

lemma message_handler_InrD:
  assumes "message_handler parsed s = Inr (s', es)"
  shows "(s' = s \<and> (\<forall>p. \<forall>x \<in> set es. \<not> settles p x)) \<or>
         (\<exists>m k p. parsed = Inr m \<and> jprop m ''type'' = Some (JStr ''response'') \<and>
            jprop m ''id'' = Some (JStr k) \<and> pendingRequests s k = Some p \<and>
            s' = s\<lparr>pendingRequests := (pendingRequests s)(k := None)\<rparr> \<and>
            es = [settle p m])"
proof (cases "handler_body parsed s")
  case (Inl e)
  with assms show ?thesis by (auto simp: message_handler_def)
next
  case (Inr r)
  with assms have "handler_body parsed s = Inr (s', es)"
    by (simp add: message_handler_def)
  then show ?thesis by (rule handler_body_InrD)
qed

lemma wf_message_handler:
  "wf s \<Longrightarrow> message_handler parsed s = Inr (s', es) \<Longrightarrow> wf s'"
  using message_handler_InrD [of parsed s s' es] wf_delete by auto

subsection \<open>Timers\<close>

lemma timer_callback_fields:
  "messageId (fst (timer_callback c s)) = messageId s"
  "clock (fst (timer_callback c s)) = clock s"
  "timers (fst (timer_callback c s)) = timers s"
  "isConnected (fst (timer_callback c s)) = isConnected s"
  by (cases c; simp add: make_socket_def)+

lemma timer_callback_pending:
  "pendingRequests (fst (timer_callback c s)) =
     (case c of RequestTimeout k q \<Rightarrow> (pendingRequests s)(k := None)
              | ReconnectAttempt \<Rightarrow> pendingRequests s)"
  by (cases c) (auto simp: make_socket_def)

lemma run_callbacks_fields_conj:
  "messageId (fst (run_callbacks cs s)) = messageId s \<and>
   clock (fst (run_callbacks cs s)) = clock s \<and>
   timers (fst (run_callbacks cs s)) = timers s \<and>
   isConnected (fst (run_callbacks cs s)) = isConnected s"
proof (induction cs arbitrary: s)
  case Nil
  show ?case by simp
next
  case (Cons c cs)
  obtain s1 es1 where c: "timer_callback c s = (s1, es1)" by (cases "timer_callback c s")
  obtain s2 es2 where r: "run_callbacks cs s1 = (s2, es2)" by (cases "run_callbacks cs s1")
  from Cons.IH [of s1] r timer_callback_fields [of c s] c show ?case by simp
qed

lemma run_callbacks_fields:
  "messageId (fst (run_callbacks cs s)) = messageId s"
  "clock (fst (run_callbacks cs s)) = clock s"
  "timers (fst (run_callbacks cs s)) = timers s"
  "isConnected (fst (run_callbacks cs s)) = isConnected s"
  using run_callbacks_fields_conj [of cs s] by simp_all

lemma run_callbacks_pending:
  "pendingRequests (fst (run_callbacks cs s)) k =
     (if \<exists>q. RequestTimeout k q \<in> set cs then None else pendingRequests s k)"
proof (induction cs arbitrary: s)
  case Nil
  show ?case by simp
next
  case (Cons c cs)
  obtain s1 es1 where c: "timer_callback c s = (s1, es1)" by (cases "timer_callback c s")
  obtain s2 es2 where r: "run_callbacks cs s1 = (s2, es2)" by (cases "run_callbacks cs s1")
  have p1: "pendingRequests s1 =
     (case c of RequestTimeout k q \<Rightarrow> (pendingRequests s)(k := None)
              | ReconnectAttempt \<Rightarrow> pendingRequests s)"
    using timer_callback_pending [of c s] c by simp
  have "pendingRequests s2 k =
     (if \<exists>q. RequestTimeout k q \<in> set cs then None else pendingRequests s1 k)"
    using Cons.IH [of s1] r by simp
  with p1 c r show ?case
    by (cases c) auto
qed

text \<open>Settling of a promise by the callbacks run in one go.\<close>

lemma run_callbacks_no_settle:
  assumes "pendingRequests s mid = None"
      and "\<forall>k q. RequestTimeout k q \<in> set cs \<longrightarrow> q = p \<longrightarrow> k = mid"
  shows "filter (settles p) (snd (run_callbacks cs s)) = []"
  using assms
proof (induction cs arbitrary: s)
  case Nil
  show ?case by simp
next
  case (Cons c cs)
  obtain s1 es1 where c: "timer_callback c s = (s1, es1)" by (cases "timer_callback c s")
  obtain s2 es2 where r: "run_callbacks cs s1 = (s2, es2)" by (cases "run_callbacks cs s1")
  have e1: "filter (settles p) es1 = []"
    using c Cons.prems by (cases c) (auto simp: make_socket_def split: if_splits)
  have "pendingRequests s1 mid = None"
    using timer_callback_pending [of c s] c Cons.prems(1) by (cases c) auto
  then have "filter (settles p) (snd (run_callbacks cs s1)) = []"
    using Cons.prems(2) by (intro Cons.IH) auto
  with e1 c r show ?case by simp
qed

lemma run_callbacks_timeout:
  assumes "pendingRequests s mid = Some p'"
      and "RequestTimeout mid p \<in> set cs"
      and "\<forall>k q. RequestTimeout k q \<in> set cs \<longrightarrow> (q = p \<longleftrightarrow> k = mid)"
  shows "filter (settles p) (snd (run_callbacks cs s)) = [Reject p (Error (JStr ''Request timeout''))]"
  using assms
proof (induction cs arbitrary: s)
  case Nil
  then show ?case by simp
next
  case (Cons c cs)
  obtain s1 es1 where c: "timer_callback c s = (s1, es1)" by (cases "timer_callback c s")
  obtain s2 es2 where r: "run_callbacks cs s1 = (s2, es2)" by (cases "run_callbacks cs s1")
  show ?case
  proof (cases "c = RequestTimeout mid p")
    case True
    with c Cons.prems(1) have es1: "es1 = [Reject p (Error (JStr ''Request timeout''))]"
      and s1: "pendingRequests s1 mid = None"
      by auto
    have "filter (settles p) (snd (run_callbacks cs s1)) = []"
      using s1 Cons.prems(3) by (intro run_callbacks_no_settle [where mid = mid]) auto
    with es1 c r show ?thesis by simp
  next
    case False
    with Cons.prems(2) have mem: "RequestTimeout mid p \<in> set cs" by simp
    have other: "\<And>k q. c = RequestTimeout k q \<Longrightarrow> q \<noteq> p \<and> k \<noteq> mid"
      using False Cons.prems(3) by auto
    have e1: "filter (settles p) es1 = []"
      using c other by (cases c) (auto simp: make_socket_def split: if_splits)
    have "pendingRequests s1 mid = Some p'"
      using timer_callback_pending [of c s] c Cons.prems(1) other by (cases c) auto
    then have "filter (settles p) (snd (run_callbacks cs s1)) = [Reject p (Error (JStr ''Request timeout''))]"
      using mem Cons.prems(3) by (intro Cons.IH) auto
    with e1 c r show ?thesis by simp
  qed
qed

lemma elapse_eq:
  "elapse d s = run_callbacks (map snd (sort_key fst (filter (\<lambda>x. fst x \<le> clock s + d) (timers s))))
                  (s\<lparr>clock := clock s + d, timers := filter (\<lambda>x. \<not> fst x \<le> clock s + d) (timers s)\<rparr>)"
  by (simp add: elapse_def Let_def)

lemma due_set:
  "c \<in> set (map snd (sort_key fst (filter (\<lambda>x. fst x \<le> t) ts))) \<longleftrightarrow>
     (\<exists>dl. (dl, c) \<in> set ts \<and> dl \<le> t)"
  by (auto simp: image_iff)

lemma elapse_fields:
  "messageId (fst (elapse d s)) = messageId s"
  "clock (fst (elapse d s)) = clock s + d"
  "timers (fst (elapse d s)) = filter (\<lambda>x. \<not> fst x \<le> clock s + d) (timers s)"
  "isConnected (fst (elapse d s)) = isConnected s"
  by (simp_all add: elapse_eq run_callbacks_fields)

lemma elapse_pending:
  "pendingRequests (fst (elapse d s)) k =
     (if \<exists>q dl. (dl, RequestTimeout k q) \<in> set (timers s) \<and> dl \<le> clock s + d
      then None else pendingRequests s k)"
proof -
  have h: "(\<exists>q. RequestTimeout k q \<in> set (map snd (sort_key fst (filter (\<lambda>x. fst x \<le> clock s + d) (timers s)))))
        \<longleftrightarrow> (\<exists>q dl. (dl, RequestTimeout k q) \<in> set (timers s) \<and> dl \<le> clock s + d)"
    unfolding due_set by blast
  show ?thesis
    unfolding elapse_eq run_callbacks_pending h by auto
qed

lemma wf_elapse:
  assumes "wf s"
  shows "wf (fst (elapse d s))"
  unfolding wf_def
proof (intro conjI allI impI)
  fix k q assume a: "pendingRequests (fst (elapse d s)) k = Some q"
  then have pend: "pendingRequests s k = Some q"
    by (auto simp: elapse_pending split: if_splits)
  from wf_pendingD [OF assms pend]
  show "k = req_id q" "q \<le> messageId (fst (elapse d s))"
    by (simp_all add: elapse_fields)
next
  fix dl k q assume "(dl, RequestTimeout k q) \<in> set (timers (fst (elapse d s)))"
  then have m: "(dl, RequestTimeout k q) \<in> set (timers s)" and late: "clock s + d < dl"
    by (auto simp: elapse_fields)
  from wf_timerD [OF assms m] late
  show "k = req_id q" "q \<le> messageId (fst (elapse d s))" "clock (fst (elapse d s)) < dl"
    "dl \<le> clock (fst (elapse d s)) + 30000"
    by (auto simp: elapse_fields)
qed

subsection \<open>Every state the service reaches is well formed\<close>

lemma wf_step: "wf s \<Longrightarrow> wf (fst (step e s))"
proof (cases e)
  case (CallSendRequest methodName parameters)
  assume "wf s"
  then show ?thesis
    using CallSendRequest wf_sendRequest [of s methodName parameters]
    by (cases "sendRequest methodName parameters s") auto
next
  case (WsMessage parsed)
  assume "wf s"
  then show ?thesis
    using WsMessage wf_message_handler [of s parsed]
    by (cases "message_handler parsed s") auto
qed (simp_all add: initialize_def wf_make_socket wf_disconnect wf_open_handler wf_error_handler
       wf_close_handler wf_elapse wf_socks)

lemma run_append:
  "run (es1 @ es2) s =
     (case run es1 s of (s1, out1) \<Rightarrow>
        (case run es2 s1 of (s2, out2) \<Rightarrow> (s2, out1 @ out2)))"
  by (induction es1 arbitrary: s) (auto split: prod.splits)

lemma wf_run: "wf s \<Longrightarrow> wf (fst (run es s))"
proof (induction es arbitrary: s)
  case Nil
  then show ?case by simp
next
  case (Cons e es)
  obtain s1 out1 where e: "step e s = (s1, out1)" by (cases "step e s")
  obtain s2 out2 where r: "run es s1 = (s2, out2)" by (cases "run es s1")
  from Cons.prems e have "wf s1" using wf_step [of s e] by simp
  then have "wf (fst (run es s1))" by (rule Cons.IH)
  with e r show ?case by simp
qed

lemma wf_reachable: "wf (fst (run es new_service))"
  by (rule wf_run [OF wf_new_service])

subsection \<open>A promise whose entry is gone is never settled\<close>

lemma settles_settle: "settles p (settle q m) \<longleftrightarrow> q = p"
  by (simp add: settle_def)

lemma step_Message_cases:
  obtains (same) es where "step (WsMessage parsed) s = (s, es)" "\<forall>p. \<forall>x \<in> set es. \<not> settles p x"
  | (matched) m k q where "parsed = Inr m" "jprop m ''type'' = Some (JStr ''response'')"
      "jprop m ''id'' = Some (JStr k)" "pendingRequests s k = Some q"
      "step (WsMessage parsed) s = (s\<lparr>pendingRequests := (pendingRequests s)(k := None)\<rparr>, [settle q m])"
proof -
  from message_handler_returns [of parsed s] obtain s' es
    where r: "message_handler parsed s = Inr (s', es)" by auto
  from message_handler_InrD [OF r] r same matched show thesis
    by auto
qed

lemma filter_settles_empty: "(\<forall>x \<in> set es. \<not> settles p x) \<Longrightarrow> filter (settles p) es = []"
  by (simp add: filter_empty_conv)

lemma step_no_settle:
  assumes "wf s" and "p \<le> messageId s" and "pendingRequests s (req_id p) = None"
  shows "filter (settles p) (snd (step e s)) = [] \<and>
         pendingRequests (fst (step e s)) (req_id p) = None \<and>
         p \<le> messageId (fst (step e s))"
proof (cases e)
  case CallInitialize
  with assms show ?thesis by (simp add: initialize_def make_socket_def)
next
  case (CallSendRequest methodName parameters)
  show ?thesis
  proof (cases "sendRequest methodName parameters s")
    case (Inl err)
    with CallSendRequest assms show ?thesis by simp
  next
    case (Inr r)
    obtain s' q es where r: "r = (s', q, es)" by (cases r)
    note d = sendRequest_InrD [OF Inr [unfolded r]]
    from d(3) assms(2) have "q \<noteq> p" by simp
    then have "req_id q \<noteq> req_id p" using req_id_inj by blast
    with CallSendRequest Inr r d assms \<open>q \<noteq> p\<close> show ?thesis by simp
  qed
next
  case CallDisconnect
  with assms show ?thesis by (simp add: disconnect_def split: option.splits)
next
  case (WsOpen k)
  with assms show ?thesis by (simp add: open_handler_def)
next
  case (WsError k)
  with assms show ?thesis by (simp add: error_handler_def)
next
  case (WsClose k)
  with assms show ?thesis by (simp add: close_handler_def scheduleReconnect_def)
next
  case (WsMessage parsed)
  show ?thesis
  proof (cases parsed s rule: step_Message_cases)
    case (same es)
    with WsMessage assms show ?thesis by (simp add: filter_settles_empty)
  next
    case (matched m k q)
    from wf_pendingD [OF assms(1) matched(4)] have "k = req_id q" by simp
    with matched(4) assms(3) have "q \<noteq> p" by auto
    with WsMessage matched assms show ?thesis by (simp add: settles_settle)
  qed
next
  case (Elapse d)
  have "filter (settles p) (snd (elapse d s)) = []"
    unfolding elapse_eq
  proof (rule run_callbacks_no_settle [where mid = "req_id p"])
    show "pendingRequests (s\<lparr>clock := clock s + d,
            timers := filter (\<lambda>x. \<not> fst x \<le> clock s + d) (timers s)\<rparr>) (req_id p) = None"
      using assms(3) by simp
    show "\<forall>k q. RequestTimeout k q \<in> set (map snd (sort_key fst
            (filter (\<lambda>x. fst x \<le> clock s + d) (timers s)))) \<longrightarrow> q = p \<longrightarrow> k = req_id p"
      unfolding due_set using wf_timerD [OF assms(1)] by blast
  qed
  with Elapse assms show ?thesis
    by (simp add: elapse_pending elapse_fields)
qed

lemma run_no_settle:
  assumes "wf s" and "p \<le> messageId s" and "pendingRequests s (req_id p) = None"
  shows "filter (settles p) (snd (run es s)) = [] \<and>
         pendingRequests (fst (run es s)) (req_id p) = None"
  using assms
proof (induction es arbitrary: s)
  case Nil
  then show ?case by simp
next
  case (Cons e es)
  obtain s1 out1 where e: "step e s = (s1, out1)" by (cases "step e s")
  obtain s2 out2 where r: "run es s1 = (s2, out2)" by (cases "run es s1")
  from step_no_settle [OF Cons.prems, of e] e
  have 1: "filter (settles p) out1 = []" "pendingRequests s1 (req_id p) = None" "p \<le> messageId s1"
    by simp_all
  from wf_step [OF Cons.prems(1), of e] e have "wf s1" by simp
  from Cons.IH [OF this 1(3) 1(2)] r
  have "filter (settles p) out2 = []" "pendingRequests s2 (req_id p) = None" by simp_all
  with 1 e r show ?case by simp
qed

subsection \<open>A request timer stays until it runs, and then its entry goes\<close>

lemma step_messageId_mono: "messageId s \<le> messageId (fst (step e s))"
proof (cases e)
  case (CallSendRequest methodName parameters)
  show ?thesis
  proof (cases "sendRequest methodName parameters s")
    case (Inl err)
    with CallSendRequest show ?thesis by simp
  next
    case (Inr r)
    obtain s' q' es where r: "r = (s', q', es)" by (cases r)
    note d = sendRequest_InrD [OF Inr [unfolded r]]
    with CallSendRequest Inr r show ?thesis by auto
  qed
next
  case (WsMessage parsed)
  then show ?thesis
    by (cases parsed s rule: step_Message_cases) auto
next
  case (Elapse d)
  then show ?thesis by (simp add: elapse_fields)
qed (auto simp: initialize_def make_socket_def disconnect_def open_handler_def error_handler_def
       close_handler_def scheduleReconnect_def split: option.splits)

lemma step_timer_kept:
  assumes "(dl, c) \<in> set (timers s)"
  shows "(dl, c) \<in> set (timers (fst (step e s))) \<or> (\<exists>d. e = Elapse d \<and> dl \<le> clock s + d)"
proof (cases e)
  case (CallSendRequest methodName parameters)
  show ?thesis
  proof (cases "sendRequest methodName parameters s")
    case (Inl err)
    with CallSendRequest assms show ?thesis by simp
  next
    case (Inr r)
    obtain s' q' es where r: "r = (s', q', es)" by (cases r)
    note d = sendRequest_InrD [OF Inr [unfolded r]]
    with CallSendRequest Inr r assms show ?thesis by auto
  qed
next
  case (WsMessage parsed)
  then show ?thesis
    using assms by (cases parsed s rule: step_Message_cases) auto
next
  case (Elapse d)
  with assms show ?thesis by (auto simp: elapse_fields)
qed (use assms in \<open>auto simp: initialize_def make_socket_def disconnect_def open_handler_def
       error_handler_def close_handler_def scheduleReconnect_def split: option.splits\<close>)

lemma step_entry_or_timer:
  assumes "wf s" and "p \<le> messageId s"
      and "(dl, RequestTimeout (req_id p) p) \<in> set (timers s) \<or> pendingRequests s (req_id p) = None"
  shows "(dl, RequestTimeout (req_id p) p) \<in> set (timers (fst (step e s))) \<or>
         pendingRequests (fst (step e s)) (req_id p) = None"
proof (cases "pendingRequests s (req_id p) = None")
  case True
  from step_no_settle [OF assms(1,2) True, of e] show ?thesis by simp
next
  case False
  with assms(3) have t: "(dl, RequestTimeout (req_id p) p) \<in> set (timers s)" by simp
  from step_timer_kept [OF t, of e] show ?thesis
  proof
    assume "(dl, RequestTimeout (req_id p) p) \<in> set (timers (fst (step e s)))"
    then show ?thesis ..
  next
    assume "\<exists>d. e = Elapse d \<and> dl \<le> clock s + d"
    then obtain d where "e = Elapse d" "dl \<le> clock s + d" by blast
    with t have "pendingRequests (fst (step e s)) (req_id p) = None"
      by (auto simp: elapse_pending)
    then show ?thesis ..
  qed
qed

lemma run_entry_or_timer:
  assumes "wf s" and "p \<le> messageId s"
      and "(dl, RequestTimeout (req_id p) p) \<in> set (timers s) \<or> pendingRequests s (req_id p) = None"
  shows "(dl, RequestTimeout (req_id p) p) \<in> set (timers (fst (run es s))) \<or>
         pendingRequests (fst (run es s)) (req_id p) = None"
  using assms
proof (induction es arbitrary: s)
  case Nil
  then show ?case by simp
next
  case (Cons e es)
  obtain s1 out1 where e: "step e s = (s1, out1)" by (cases "step e s")
  obtain s2 out2 where r: "run es s1 = (s2, out2)" by (cases "run es s1")
  from wf_step [OF Cons.prems(1), of e] e have wf1: "wf s1" by simp
  from step_messageId_mono [of s e] e Cons.prems(2) have le1: "p \<le> messageId s1" by simp
  from step_entry_or_timer [OF Cons.prems, of e] e
  have "(dl, RequestTimeout (req_id p) p) \<in> set (timers s1) \<or> pendingRequests s1 (req_id p) = None"
    by simp
  from Cons.IH [OF wf1 le1 this] e r show ?case by simp
qed

subsection \<open>Responses and expiry\<close>


lemma message_handler_unknown:
  assumes "jprop m ''type'' = Some (JStr ''response'')" and "jprop m ''id'' = Some (JStr k)"
      and "pendingRequests s k = None"
  shows "message_handler (Inr m) s = Inr (s, [])"
  using assms by (cases m) (simp_all add: message_handler_def handler_body_def)

lemma elapse_timeout:
  assumes "wf s" and "pendingRequests s k = Some p"
      and "(dl, RequestTimeout k p) \<in> set (timers s)" and "dl \<le> clock s + d"
  shows "pendingRequests (fst (elapse d s)) k = None \<and>
         filter (settles p) (snd (elapse d s)) = [Reject p (Error (JStr ''Request timeout''))]"
proof
  from assms(3,4) show "pendingRequests (fst (elapse d s)) k = None"
    by (auto simp: elapse_pending)
  show "filter (settles p) (snd (elapse d s)) = [Reject p (Error (JStr ''Request timeout''))]"
    unfolding elapse_eq
  proof (rule run_callbacks_timeout [where mid = k and p' = p])
    show "pendingRequests (s\<lparr>clock := clock s + d,
            timers := filter (\<lambda>x. \<not> fst x \<le> clock s + d) (timers s)\<rparr>) k = Some p"
      using assms(2) by simp
    show "RequestTimeout k p \<in> set (map snd (sort_key fst
            (filter (\<lambda>x. fst x \<le> clock s + d) (timers s))))"
      unfolding due_set using assms(3,4) by blast
    from wf_pendingD [OF assms(1,2)] have k: "k = req_id p" by simp
    show "\<forall>k' q. RequestTimeout k' q \<in> set (map snd (sort_key fst
            (filter (\<lambda>x. fst x \<le> clock s + d) (timers s)))) \<longrightarrow> (q = p \<longleftrightarrow> k' = k)"
      unfolding due_set using wf_timerD [OF assms(1)] k req_id_inj by blast
  qed
qed


text \<open>
  What does hold of the timeout: a call whose write did not throw has its timer set 30
  seconds ahead, and if its entry is still in the table when that deadline passes, the
  timer removes the entry and rejects the promise with \<open>Request timeout\<close>, whatever the
  connection state; a response with that id arriving afterwards is ignored.
\<close>

lemma timeout_rejects_entry_still_pending:
  assumes "s0 = fst (run evs0 new_service)"
      and "sendRequest methodName parameters s0 = Inr (s1, p, out)"
      and "\<not> send_throws s0"
      and "s = fst (run evs s1)"
      and "pendingRequests s (req_id p) \<noteq> None"
      and "clock s0 + 30000 \<le> clock s + d"
  shows "pendingRequests (fst (elapse d s)) (req_id p) = None \<and>
         filter (settles p) (snd (elapse d s)) = [Reject p (Error (JStr ''Request timeout''))] \<and>
         (\<forall>m. jprop m ''type'' = Some (JStr ''response'') \<longrightarrow>
              jprop m ''id'' = Some (JStr (req_id p)) \<longrightarrow>
              message_handler (Inr m) (fst (elapse d s)) = Inr (fst (elapse d s), []))"
proof -
  have wf0: "wf s0" unfolding assms(1) by (rule wf_reachable)
  note d = sendRequest_InrD [OF assms(2)]
  have wf1: "wf s1" using wf0 assms(2) by (rule wf_sendRequest)
  have wf: "wf s" unfolding assms(4) using wf1 by (rule wf_run)
  from assms(5) obtain p' where p': "pendingRequests s (req_id p) = Some p'" by auto
  from wf_pendingD [OF wf p'] have "req_id p = req_id p'" by simp
  then have "p' = p" using req_id_inj by auto
  with p' have pend: "pendingRequests s (req_id p) = Some p" by simp
  have t1: "(clock s0 + 30000, RequestTimeout (req_id p) p) \<in> set (timers s1)"
    using d(7) assms(3) by simp
  have "p \<le> messageId s1" using d(4) by simp
  from run_entry_or_timer [OF wf1 this, of "clock s0 + 30000" evs] t1 pend
  have dl: "(clock s0 + 30000, RequestTimeout (req_id p) p) \<in> set (timers s)"
    unfolding assms(4) by auto
  from elapse_timeout [OF wf pend dl assms(6)]
  have gone: "pendingRequests (fst (elapse d s)) (req_id p) = None"
    and rej: "filter (settles p) (snd (elapse d s)) = [Reject p (Error (JStr ''Request timeout''))]"
    by simp_all
  from gone have "\<forall>m. jprop m ''type'' = Some (JStr ''response'') \<longrightarrow>
              jprop m ''id'' = Some (JStr (req_id p)) \<longrightarrow>
              message_handler (Inr m) (fst (elapse d s)) = Inr (fst (elapse d s), [])"
    by (simp add: message_handler_unknown)
  with gone rej show ?thesis by simp
qed

text \<open>The reconnect timer of this service is always set 5000 ms ahead, and a call made
  while the service is not connected throws at once.\<close>

lemma close_handler_fixed_delay:
  "timers (fst (close_handler s)) = timers s @ [(clock s + 5000, ReconnectAttempt)]"
  by (simp add: close_handler_def scheduleReconnect_def)

lemma sendRequest_not_connected:
  "\<not> isConnected s \<Longrightarrow>
     sendRequest methodName parameters s = Inl (Error (JStr ''Not connected to Fi MCP Server''))"
  by (simp add: sendRequest_def)

text \<open>The equations that evaluate the model on a given input.\<close>

lemmas eval_simps = new_service_def initialize_def make_socket_def open_handler_def sendRequest_def
  send_throws_def close_handler_def scheduleReconnect_def elapse_def req_id_def dec.simps digit_def
  Let_def request_message_def disconnect_def error_handler_def message_handler_def handler_body_def
  settle_def handleNotification_def

text \<open>
  C9. A frame that does not parse, or a parsed message whose id is not a key of the
  pending table, is handled without an exception leaving the handler, the service state
  (the table with it) is the same after as before, and no promise is settled.
\<close>

theorem C9_unknown_or_malformed_dropped:
  assumes "parsed = Inl e \<or> (\<exists>m. parsed = Inr m \<and> pending_get s (jprop m ''id'') = None)"
  shows "\<exists>es. message_handler parsed s = Inr (s, es) \<and> (\<forall>p. \<forall>x \<in> set es. \<not> settles p x)"
  using assms
  by (cases parsed)
     (auto simp: message_handler_def handler_body_def handleNotification_def
           split: sum.splits)

theorem C9_unknown_or_malformed_dropped_witness:
  "message_handler (Inl SyntaxError)
     (fst (run [CallInitialize, WsOpen 0, CallSendRequest ''data/financial'' None] new_service)) =
     Inr (fst (run [CallInitialize, WsOpen 0, CallSendRequest ''data/financial'' None] new_service),
          [ConsoleError]) \<and>
   message_handler
     (Inr (JObj [(''id'', JStr ''req_7''), (''type'', JStr ''response''), (''result'', JNum 5)]))
     (fst (run [CallInitialize, WsOpen 0, CallSendRequest ''data/financial'' None] new_service)) =
     Inr (fst (run [CallInitialize, WsOpen 0, CallSendRequest ''data/financial'' None] new_service), []) \<and>
   pendingRequests
     (fst (run [CallInitialize, WsOpen 0, CallSendRequest ''data/financial'' None] new_service))
     ''req_1'' = Some 1"
proof -
  let ?s = "fst (run [CallInitialize, WsOpen 0, CallSendRequest ''data/financial'' None] new_service)"
  let ?m = "JObj [(''id'', JStr ''req_7''), (''type'', JStr ''response''), (''result'', JNum 5)]"
  have p: "pendingRequests ?s ''req_1'' = Some 1" "pendingRequests ?s ''req_7'' = None"
    by (simp_all add: eval_simps)
  have a: "(Inl SyntaxError :: js_exn + jvalue) = Inl SyntaxError \<or>
      (\<exists>m. (Inl SyntaxError :: js_exn + jvalue) = Inr m \<and> pending_get ?s (jprop m ''id'') = None)"
    by simp
  have b: "(Inr ?m :: js_exn + jvalue) = Inl TypeError \<or>
      (\<exists>m. (Inr ?m :: js_exn + jvalue) = Inr m \<and> pending_get ?s (jprop m ''id'') = None)"
    using p(2) by simp
  from C9_unknown_or_malformed_dropped [OF a] C9_unknown_or_malformed_dropped [OF b] p
  show ?thesis
    by (auto simp: message_handler_def handler_body_def)
qed



text \<open>
  C1. Every call issued is to be resolved or rejected exactly once, also when
  \<open>disconnect\<close> follows. The response handler and the timer both settle the promise of
  the entry they remove; \<open>disconnect\<close> empties the table and settles nothing. Here one
  call is issued on an open connection and \<open>disconnect\<close> is called before a response:
  the entry is gone, and whatever events follow (its own timer among them, which finds no
  entry), the promise of the call is never resolved and never rejected.
\<close>

theorem C1_disconnect_leaves_promise_unsettled:
  "pendingRequests
     (fst (run [CallInitialize, WsOpen 0, CallSendRequest ''data/financial'' None] new_service))
     ''req_1'' = Some 1 \<and>
   pendingRequests
     (fst (run ([CallInitialize, WsOpen 0, CallSendRequest ''data/financial'' None, CallDisconnect]
                @ evs) new_service))
     ''req_1'' = None \<and>
   filter (settles 1)
     (snd (run ([CallInitialize, WsOpen 0, CallSendRequest ''data/financial'' None, CallDisconnect]
                @ evs) new_service)) = []"
proof -
  let ?pre = "[CallInitialize, WsOpen 0, CallSendRequest ''data/financial'' None, CallDisconnect]"
  let ?s = "fst (run ?pre new_service)"
  have id1: "req_id 1 = ''req_1''" by (simp add: eval_simps)
  have issued: "pendingRequests
     (fst (run [CallInitialize, WsOpen 0, CallSendRequest ''data/financial'' None] new_service))
     ''req_1'' = Some 1"
    by (simp add: eval_simps)
  have wf: "wf ?s" by (rule wf_reachable)
  have le: "1 \<le> messageId ?s" by (simp add: eval_simps)
  have gone: "pendingRequests ?s (req_id 1) = None" by (simp add: eval_simps)
  have pre: "filter (settles 1) (snd (run ?pre new_service)) = []" by (simp add: eval_simps)
  from run_no_settle [OF wf le gone, of evs]
  have rest: "filter (settles 1) (snd (run evs ?s)) = []"
    and still: "pendingRequests (fst (run evs ?s)) ''req_1'' = None"
    unfolding id1 by simp_all
  have "snd (run (?pre @ evs) new_service) = snd (run ?pre new_service) @ snd (run evs ?s)"
    and "fst (run (?pre @ evs) new_service) = fst (run evs ?s)"
    unfolding run_append by (simp_all split: prod.splits)
  with pre rest still issued show ?thesis by simp
qed

text \<open>
  C3. A call that gets no matching response within 30 seconds is to have its entry
  removed and its promise rejected with \<open>Request timeout\<close>, whatever the connection
  state. Two inputs on which the code does otherwise. First, a call is issued on an open
  connection, \<open>disconnect\<close> is called and 31 seconds pass without a response: the entry
  is gone, but the timer finds no entry and the promise is never rejected. Second,
  \<open>initialize\<close> is called again on a connected service, so that \<open>this.ws\<close> is a socket
  still connecting, and a call is issued: \<open>ws.send\<close> throws after the entry is put in the
  table and before the timer is set, the promise is rejected with the error of the
  socket library, and however much time passes afterwards the entry stays in the table
  and no \<open>Request timeout\<close> rejection is made.
\<close>

theorem C3_no_timeout_rejection_after_disconnect_or_failed_send:
  "pendingRequests
     (fst (run [CallInitialize, WsOpen 0, CallSendRequest ''fetch_net_worth'' None,
                CallDisconnect, Elapse 31000] new_service)) ''req_1'' = None \<and>
   filter (settles 1)
     (snd (run [CallInitialize, WsOpen 0, CallSendRequest ''fetch_net_worth'' None,
                CallDisconnect, Elapse 31000] new_service)) = [] \<and>
   pendingRequests
     (fst (run [CallInitialize, WsOpen 0, CallInitialize,
                CallSendRequest ''fetch_net_worth'' None, Elapse d] new_service))
     ''req_1'' = Some 1 \<and>
   filter (settles 1)
     (snd (run [CallInitialize, WsOpen 0, CallInitialize,
                CallSendRequest ''fetch_net_worth'' None, Elapse d] new_service)) =
     [Reject 1 (Error (JStr ''WebSocket is not open: readyState 0 (CONNECTING)''))]"
  by (simp add: eval_simps)

text \<open>
  C2, as stated, fails on a close event: with one call outstanding, the close handler
  rejects nothing and the entry stays in the table.
\<close>

theorem C2_close_rejects_nothing_counterexample:
  "filter (settles 1)
     (snd (run [CallInitialize, WsOpen 0, CallSendRequest ''data/financial'' None, WsClose 0]
            new_service)) = [] \<and>
   pendingRequests
     (fst (run [CallInitialize, WsOpen 0, CallSendRequest ''data/financial'' None, WsClose 0]
            new_service)) ''req_1'' = Some 1"
  by (simp add: eval_simps)

lemma step_WsClose_settles_nothing:
  "filter is_settle (snd (step (WsClose k) s)) = [] \<and>
   pendingRequests (fst (step (WsClose k) s)) = pendingRequests s"
  by (simp add: close_handler_def scheduleReconnect_def)

text \<open>
  C2, amended. When a socket of the service emits a close event, no outstanding request
  is rejected: in every state, the handler marks the service as not connected and sets
  the reconnect timer 5000 ms ahead, and that is all it does. It calls \<open>resolve\<close> or
  \<open>reject\<close> of no promise, and it leaves the pending table and the request timers
  exactly as they were, so that each outstanding request goes on waiting for a response
  or for its own timer. So a close event that follows any sequence of events adds no
  call of \<open>resolve\<close> or \<open>reject\<close> to those the sequence made, and the table is as the
  sequence left it.
\<close>

theorem C2_close_event_rejects_nothing:
  assumes "k < length (socks s)"
  shows "step (WsClose k) s =
           (s\<lparr>socks := (socks s)[k := (socks s ! k)\<lparr>readyState := CLOSED\<rparr>],
              isConnected := False,
              timers := timers s @ [(clock s + 5000, ReconnectAttempt)]\<rparr>,
            [ConsoleLog]) \<and>
         filter is_settle (snd (step (WsClose k) s)) = [] \<and>
         pendingRequests (fst (step (WsClose k) s)) = pendingRequests s \<and>
         filter (\<lambda>t. snd t \<noteq> ReconnectAttempt) (timers (fst (step (WsClose k) s))) =
           filter (\<lambda>t. snd t \<noteq> ReconnectAttempt) (timers s) \<and>
         filter is_settle (snd (run (evs @ [WsClose k]) new_service)) =
           filter is_settle (snd (run evs new_service)) \<and>
         pendingRequests (fst (run (evs @ [WsClose k]) new_service)) =
           pendingRequests (fst (run evs new_service))"
proof -
  obtain s1 out1 where r: "run evs new_service = (s1, out1)"
    by (cases "run evs new_service")
  obtain s2 out2 where c: "step (WsClose k) s1 = (s2, out2)"
    by (cases "step (WsClose k) s1")
  from step_WsClose_settles_nothing [of k s1] c
  have "filter is_settle out2 = []" "pendingRequests s2 = pendingRequests s1"
    by simp_all
  then have "filter is_settle (snd (run (evs @ [WsClose k]) new_service)) =
           filter is_settle (snd (run evs new_service))"
    and "pendingRequests (fst (run (evs @ [WsClose k]) new_service)) =
           pendingRequests (fst (run evs new_service))"
    unfolding run_append using r c by simp_all
  then show ?thesis
    using assms by (simp add: close_handler_def scheduleReconnect_def)
qed

theorem C2_close_event_rejects_nothing_witness:
  "filter is_settle
     (snd (step (WsClose 0)
        (fst (run [CallInitialize, WsOpen 0, CallSendRequest ''data/financial'' None]
               new_service)))) = [] \<and>
   pendingRequests
     (fst (step (WsClose 0)
        (fst (run [CallInitialize, WsOpen 0, CallSendRequest ''data/financial'' None]
               new_service)))) ''req_1'' = Some 1 \<and>
   timers
     (fst (step (WsClose 0)
        (fst (run [CallInitialize, WsOpen 0, CallSendRequest ''data/financial'' None]
               new_service)))) =
     [(30000, RequestTimeout ''req_1'' 1), (5000, ReconnectAttempt)]"
proof -
  let ?s = "fst (run [CallInitialize, WsOpen 0, CallSendRequest ''data/financial'' None] new_service)"
  have l: "(0::nat) < length (socks ?s)" by (simp add: eval_simps)
  have p: "pendingRequests ?s ''req_1'' = Some 1" by (simp add: eval_simps)
  have t: "timers ?s = [(30000, RequestTimeout ''req_1'' 1)]" "clock ?s = 0"
    by (simp_all add: eval_simps)
  from C2_close_event_rejects_nothing [OF l] p t show ?thesis
    by simp
qed

section \<open>Properties of FiMcpService\<close>

lemma stream_run_append:
  "stream_run (es1 @ es2) s =
     (case stream_run es1 s of (s1, out1) \<Rightarrow>
        (case stream_run es2 s1 of (s2, out2) \<Rightarrow> (s2, out1 @ out2)))"
  by (induction es1 arbitrary: s) (auto split: prod.splits)

lemma delays_append: "delays (xs @ ys) = delays xs @ delays ys"
  by (induction xs rule: delays.induct) simp_all

lemma sockets_made_append: "sockets_made (xs @ ys) = sockets_made xs + sockets_made ys"
  by (induction xs rule: sockets_made.induct) simp_all

lemma failed_round_step:
  assumes "length (heap s) = Suc n" and "length (sockets s) = Suc n" and "length (held s) = Suc n"
      and "timeouts s = []"
      and "map reconnectAttempts (heap s) = replicate n 1 @ [0]"
      and "socket (heap s ! n) = n"
  shows "\<exists>s'. stream_run (failed_round n) s = (s', [Log, Log, SetTimeout 1000, NewSocket (Suc n)]) \<and>
           length (heap s') = Suc (Suc n) \<and> length (sockets s') = Suc (Suc n) \<and>
           length (held s') = Suc (Suc n) \<and> timeouts s' = [] \<and>
           map reconnectAttempts (heap s') = replicate (Suc n) 1 @ [0] \<and>
           socket (heap s' ! Suc n) = Suc n"
proof -
  from assms(5) have "map reconnectAttempts (heap s) ! n = (replicate n 1 @ [0]) ! n" by simp
  with assms(1) have ra: "reconnectAttempts (heap s ! n) = 0"
    by (simp add: nth_append)
  have upd: "map reconnectAttempts ((heap s)[n := (heap s ! n)\<lparr>isActive := False, reconnectAttempts := Suc 0\<rparr>])
        = replicate (Suc n) 1"
    using assms(1,5) by (simp add: map_update list_update_append replicate_append_same)
  show ?thesis
    using assms ra upd
    by (simp add: failed_round_def error_cb_def close_cb_def connectStream_def Let_def nth_append
          map_update replicate_append_same)
qed

text \<open>
  C7. The close handler reads and the timeout raises the \<open>reconnectAttempts\<close> of the
  connection object the handlers were made with, while \<open>connectStream\<close>, which the timeout
  calls, makes a new object whose counter is 0. So the cap of 5 and the doubling of the
  delay never take effect: when every socket fails in turn, \<open>n\<close> rounds make \<open>n\<close>
  reconnections for every \<open>n\<close>, each set after 1000 ms, and no counter goes beyond 1.
\<close>

theorem C7_reconnects_unbounded_at_constant_delay:
  "delays (snd (stream_run (ConnectStream uid credentials # failed_rounds n) new_stream_service))
     = replicate n 1000 \<and>
   sockets_made (snd (stream_run (ConnectStream uid credentials # failed_rounds n) new_stream_service))
     = Suc n \<and>
   map reconnectAttempts
     (heap (fst (stream_run (ConnectStream uid credentials # failed_rounds n) new_stream_service)))
     = replicate n 1 @ [0]"
proof -
  let ?r = "\<lambda>n. stream_run (ConnectStream uid credentials # failed_rounds n) new_stream_service"
  have "delays (snd (?r n)) = replicate n 1000 \<and> sockets_made (snd (?r n)) = Suc n \<and>
        length (heap (fst (?r n))) = Suc n \<and> length (sockets (fst (?r n))) = Suc n \<and>
        length (held (fst (?r n))) = Suc n \<and> timeouts (fst (?r n)) = [] \<and>
        map reconnectAttempts (heap (fst (?r n))) = replicate n 1 @ [0] \<and>
        socket (heap (fst (?r n)) ! n) = n"
  proof (induction n)
    case 0
    show ?case by (simp add: connectStream_def new_stream_service_def Let_def)
  next
    case (Suc n)
    obtain s out where r: "?r n = (s, out)" by (cases "?r n")
    with Suc have inv: "length (heap s) = Suc n" "length (sockets s) = Suc n"
      "length (held s) = Suc n" "timeouts s = []"
      "map reconnectAttempts (heap s) = replicate n 1 @ [0]" "socket (heap s ! n) = n"
      and out: "delays out = replicate n 1000" "sockets_made out = Suc n"
      by simp_all
    from failed_round_step [OF inv] obtain s'
      where s': "stream_run (failed_round n) s = (s', [Log, Log, SetTimeout 1000, NewSocket (Suc n)])"
        "length (heap s') = Suc (Suc n)" "length (sockets s') = Suc (Suc n)"
        "length (held s') = Suc (Suc n)" "timeouts s' = []"
        "map reconnectAttempts (heap s') = replicate (Suc n) 1 @ [0]"
        "socket (heap s' ! Suc n) = Suc n"
      by blast
    have "?r (Suc n) = (s', out @ [Log, Log, SetTimeout 1000, NewSocket (Suc n)])"
      using r s'(1) stream_run_append [of "ConnectStream uid credentials # failed_rounds n" "failed_round n" new_stream_service]
      by simp
    with s' out show ?case
      by (simp add: delays_append sockets_made_append replicate_append_same)
  qed
  then show ?thesis by simp
qed

lemmas stream_eval = new_stream_service_def connectStream_def open_cb_def close_cb_def error_cb_def
  pong_cb_def ping_callback_def Let_def failed_round_def

text \<open>
  C8, as stated, fails: a connection is opened and three probe intervals pass with no
  pong. The socket is still open, the connection still active, no timeout is set, and
  all that happened is three pings.
\<close>

theorem C8_no_forced_close_counterexample:
  "sockets (fst (stream_run [ConnectStream ''u'' ''tok'', SockOpen 0, Advance 30000, RunInterval 0,
       Advance 30000, RunInterval 0, Advance 30000, RunInterval 0] new_stream_service)) = [OPEN] \<and>
   map isActive (heap (fst (stream_run [ConnectStream ''u'' ''tok'', SockOpen 0, Advance 30000,
       RunInterval 0, Advance 30000, RunInterval 0, Advance 30000, RunInterval 0]
       new_stream_service))) = [True] \<and>
   timeouts (fst (stream_run [ConnectStream ''u'' ''tok'', SockOpen 0, Advance 30000, RunInterval 0,
       Advance 30000, RunInterval 0, Advance 30000, RunInterval 0] new_stream_service)) = [] \<and>
   snd (stream_run [ConnectStream ''u'' ''tok'', SockOpen 0, Advance 30000, RunInterval 0,
       Advance 30000, RunInterval 0, Advance 30000, RunInterval 0] new_stream_service) =
     [NewSocket 0, Log, SendSubscribe 0, Ping 0, Ping 0, Ping 0]"
  by (simp add: stream_eval)

lemma silent_interval_step:
  assumes "c < length (heap s)" and "isActive (heap s ! c)"
      and "sockets s ! socket (heap s ! c) = OPEN"
      and "intervals s c = Some due" and "due \<le> now s + 30000"
  shows "stream_run [Advance 30000, RunInterval c] s =
           (s\<lparr>now := now s + 30000,
              intervals := (intervals s)(c \<mapsto> due + 30000),
              heap := (heap s)[c := (heap s ! c)\<lparr>lastPing := now s + 30000\<rparr>]\<rparr>,
            [Ping (socket (heap s ! c))])"
  using assms by (simp add: ping_callback_def)

lemma silent_intervals_run:
  assumes "c < length (heap s)" and "isActive (heap s ! c)"
      and "sockets s ! socket (heap s ! c) = OPEN"
      and "intervals s c = Some due" and "due \<le> now s + 30000"
  shows "stream_run (silent_intervals c n) s =
           (s\<lparr>now := now s + 30000 * n,
              intervals := (intervals s)(c \<mapsto> due + 30000 * n),
              heap := (heap s)[c := (heap s ! c)\<lparr>lastPing :=
                 (if n = 0 then lastPing (heap s ! c) else now s + 30000 * n)\<rparr>]\<rparr>,
            replicate n (Ping (socket (heap s ! c))))"
  using assms
proof (induction n arbitrary: s due)
  case 0
  have "(intervals s)(c \<mapsto> due) = intervals s"
    using 0(4) by (simp add: fun_upd_idem_iff)
  then show ?case by simp
next
  case (Suc n)
  let ?s1 = "s\<lparr>now := now s + 30000,
              intervals := (intervals s)(c \<mapsto> due + 30000),
              heap := (heap s)[c := (heap s ! c)\<lparr>lastPing := now s + 30000\<rparr>]\<rparr>"
  have one: "stream_run [Advance 30000, RunInterval c] s = (?s1, [Ping (socket (heap s ! c))])"
    using Suc.prems by (rule silent_interval_step)
  have "c < length (heap ?s1)" "isActive (heap ?s1 ! c)"
    "sockets ?s1 ! socket (heap ?s1 ! c) = OPEN"
    "intervals ?s1 c = Some (due + 30000)" "due + 30000 \<le> now ?s1 + 30000"
    using Suc.prems by simp_all
  note raw = Suc.IH [OF this]
  have st: "?s1\<lparr>now := now ?s1 + 30000 * n,
              intervals := (intervals ?s1)(c \<mapsto> due + 30000 + 30000 * n),
              heap := (heap ?s1)[c := (heap ?s1 ! c)\<lparr>lastPing :=
                 (if n = 0 then lastPing (heap ?s1 ! c) else now ?s1 + 30000 * n)\<rparr>]\<rparr> =
            s\<lparr>now := now s + 30000 * Suc n,
              intervals := (intervals s)(c \<mapsto> due + 30000 * Suc n),
              heap := (heap s)[c := (heap s ! c)\<lparr>lastPing := now s + 30000 * Suc n\<rparr>]\<rparr>"
    using Suc.prems(1) by (cases "n = 0") (simp_all add: add.assoc)
  have sk: "socket (heap ?s1 ! c) = socket (heap s ! c)"
    using Suc.prems(1) by simp
  have ih: "stream_run (silent_intervals c n) ?s1 =
      (s\<lparr>now := now s + 30000 * Suc n,
         intervals := (intervals s)(c \<mapsto> due + 30000 * Suc n),
         heap := (heap s)[c := (heap s ! c)\<lparr>lastPing := now s + 30000 * Suc n\<rparr>]\<rparr>,
       replicate n (Ping (socket (heap s ! c))))"
    by (simp only: raw st sk)
  have e: "stream_run (silent_intervals c (Suc n)) s =
          (fst (stream_run (silent_intervals c n) ?s1),
           Ping (socket (heap s ! c)) # snd (stream_run (silent_intervals c n) ?s1))"
    using one stream_run_append [of "[Advance 30000, RunInterval c]" "silent_intervals c n" s]
    by (simp split: prod.splits)
  show ?case unfolding e ih by (simp only: fst_conv snd_conv replicate.simps nat.distinct if_False)
qed

text \<open>
  C8, amended. Nothing reads \<open>lastPing\<close>, so no grace window exists. A run of the ping
  interval of a connection, due every 30000 ms, does one of two things. While the
  connection is active and its socket open, it sends one ping and writes the time to
  \<open>lastPing\<close>, whether or not a pong has arrived, and changes nothing else; a pong only
  writes the time to \<open>lastPing\<close> as well. Otherwise it clears the interval, sends nothing
  and changes nothing else. So after any number \<open>n\<close> of probe intervals without a pong the
  state is what it was but for the clock, the next run of the interval and \<open>lastPing\<close>,
  and \<open>n\<close> pings were sent: the connection is still active, the sockets are as they were,
  and no reconnection is set.
\<close>

theorem C8_missed_pongs_only_ping:
  assumes "c < length (heap s)" and "intervals s c = Some due"
  shows "(isActive (heap s ! c) \<and> sockets s ! socket (heap s ! c) = OPEN \<and> due \<le> now s \<longrightarrow>
            stream_step (RunInterval c) s =
              (s\<lparr>intervals := (intervals s)(c \<mapsto> due + 30000),
                 heap := (heap s)[c := (heap s ! c)\<lparr>lastPing := now s\<rparr>]\<rparr>,
               [Ping (socket (heap s ! c))])) \<and>
         (\<not> (isActive (heap s ! c) \<and> sockets s ! socket (heap s ! c) = OPEN) \<and> due \<le> now s \<longrightarrow>
            stream_step (RunInterval c) s =
              (s\<lparr>intervals := (intervals s)(c := None)\<rparr>, [ClearInterval c])) \<and>
         stream_step (SockPong c) s =
           (s\<lparr>heap := (heap s)[c := (heap s ! c)\<lparr>lastPing := now s\<rparr>]\<rparr>, []) \<and>
         (isActive (heap s ! c) \<and> sockets s ! socket (heap s ! c) = OPEN \<and> due \<le> now s + 30000 \<longrightarrow>
            stream_run (silent_intervals c n) s =
              (s\<lparr>now := now s + 30000 * n,
                 intervals := (intervals s)(c \<mapsto> due + 30000 * n),
                 heap := (heap s)[c := (heap s ! c)\<lparr>lastPing :=
                    (if n = 0 then lastPing (heap s ! c) else now s + 30000 * n)\<rparr>]\<rparr>,
               replicate n (Ping (socket (heap s ! c)))) \<and>
            isActive (heap (fst (stream_run (silent_intervals c n) s)) ! c) \<and>
            sockets (fst (stream_run (silent_intervals c n) s)) = sockets s \<and>
            timeouts (fst (stream_run (silent_intervals c n) s)) = timeouts s \<and>
            connections (fst (stream_run (silent_intervals c n) s)) = connections s)"
proof (intro conjI)
  show "isActive (heap s ! c) \<and> sockets s ! socket (heap s ! c) = OPEN \<and> due \<le> now s \<longrightarrow>
            stream_step (RunInterval c) s =
              (s\<lparr>intervals := (intervals s)(c \<mapsto> due + 30000),
                 heap := (heap s)[c := (heap s ! c)\<lparr>lastPing := now s\<rparr>]\<rparr>,
               [Ping (socket (heap s ! c))])"
    using assms by (simp add: ping_callback_def)
  show "\<not> (isActive (heap s ! c) \<and> sockets s ! socket (heap s ! c) = OPEN) \<and> due \<le> now s \<longrightarrow>
            stream_step (RunInterval c) s =
              (s\<lparr>intervals := (intervals s)(c := None)\<rparr>, [ClearInterval c])"
    using assms by (simp add: ping_callback_def)
  show "stream_step (SockPong c) s =
           (s\<lparr>heap := (heap s)[c := (heap s ! c)\<lparr>lastPing := now s\<rparr>]\<rparr>, [])"
    using assms by (simp add: pong_cb_def)
  show "isActive (heap s ! c) \<and> sockets s ! socket (heap s ! c) = OPEN \<and> due \<le> now s + 30000 \<longrightarrow>
            stream_run (silent_intervals c n) s =
              (s\<lparr>now := now s + 30000 * n,
                 intervals := (intervals s)(c \<mapsto> due + 30000 * n),
                 heap := (heap s)[c := (heap s ! c)\<lparr>lastPing :=
                    (if n = 0 then lastPing (heap s ! c) else now s + 30000 * n)\<rparr>]\<rparr>,
               replicate n (Ping (socket (heap s ! c)))) \<and>
            isActive (heap (fst (stream_run (silent_intervals c n) s)) ! c) \<and>
            sockets (fst (stream_run (silent_intervals c n) s)) = sockets s \<and>
            timeouts (fst (stream_run (silent_intervals c n) s)) = timeouts s \<and>
            connections (fst (stream_run (silent_intervals c n) s)) = connections s"
  proof (intro impI, elim conjE)
    assume a: "isActive (heap s ! c)" "sockets s ! socket (heap s ! c) = OPEN"
      "due \<le> now s + 30000"
    note r = silent_intervals_run [OF assms(1) a(1,2) assms(2) a(3), of n]
    show "stream_run (silent_intervals c n) s =
              (s\<lparr>now := now s + 30000 * n,
                 intervals := (intervals s)(c \<mapsto> due + 30000 * n),
                 heap := (heap s)[c := (heap s ! c)\<lparr>lastPing :=
                    (if n = 0 then lastPing (heap s ! c) else now s + 30000 * n)\<rparr>]\<rparr>,
               replicate n (Ping (socket (heap s ! c)))) \<and>
            isActive (heap (fst (stream_run (silent_intervals c n) s)) ! c) \<and>
            sockets (fst (stream_run (silent_intervals c n) s)) = sockets s \<and>
            timeouts (fst (stream_run (silent_intervals c n) s)) = timeouts s \<and>
            connections (fst (stream_run (silent_intervals c n) s)) = connections s"
      unfolding r using assms(1) a(1) by simp
  qed
qed

theorem C8_missed_pongs_only_ping_witness:
  "snd (stream_run (silent_intervals 0 3)
          (fst (stream_run [ConnectStream ''u'' ''tok'', SockOpen 0] new_stream_service))) =
     [Ping 0, Ping 0, Ping 0] \<and>
   lastPing (heap (fst (stream_run (silent_intervals 0 3)
          (fst (stream_run [ConnectStream ''u'' ''tok'', SockOpen 0] new_stream_service)))) ! 0) =
     90000 \<and>
   isActive (heap (fst (stream_run (silent_intervals 0 3)
          (fst (stream_run [ConnectStream ''u'' ''tok'', SockOpen 0] new_stream_service)))) ! 0) \<and>
   sockets (fst (stream_run (silent_intervals 0 3)
          (fst (stream_run [ConnectStream ''u'' ''tok'', SockOpen 0] new_stream_service)))) = [OPEN] \<and>
   timeouts (fst (stream_run (silent_intervals 0 3)
          (fst (stream_run [ConnectStream ''u'' ''tok'', SockOpen 0] new_stream_service)))) = [] \<and>
   snd (stream_step (RunInterval 0)
          (fst (stream_run [ConnectStream ''u'' ''tok'', SockOpen 0, SockClose 0 1000,
                            Advance 30000] new_stream_service))) = [ClearInterval 0] \<and>
   intervals (fst (stream_step (RunInterval 0)
          (fst (stream_run [ConnectStream ''u'' ''tok'', SockOpen 0, SockClose 0 1000,
                            Advance 30000] new_stream_service)))) 0 = None"
proof -
  let ?s = "fst (stream_run [ConnectStream ''u'' ''tok'', SockOpen 0] new_stream_service)"
  let ?t = "fst (stream_run [ConnectStream ''u'' ''tok'', SockOpen 0, SockClose 0 1000,
                            Advance 30000] new_stream_service)"
  have h: "0 < length (heap ?s)" "intervals ?s 0 = Some 30000"
    by (simp_all add: stream_eval)
  have a: "isActive (heap ?s ! 0) \<and> sockets ?s ! socket (heap ?s ! 0) = OPEN \<and>
           30000 \<le> now ?s + 30000"
    by (simp add: stream_eval)
  have v: "socket (heap ?s ! 0) = 0" "sockets ?s = [OPEN]" "timeouts ?s = []" "now ?s = 0"
    by (simp_all add: stream_eval)
  have ht: "0 < length (heap ?t)" "intervals ?t 0 = Some 30000"
    by (simp_all add: stream_eval)
  have b: "\<not> (isActive (heap ?t ! 0) \<and> sockets ?t ! socket (heap ?t ! 0) = OPEN) \<and>
           30000 \<le> now ?t"
    by (simp add: stream_eval)
  from C8_missed_pongs_only_ping [OF h, of 3] a
  have r: "stream_run (silent_intervals 0 3) ?s =
              (?s\<lparr>now := now ?s + 30000 * 3,
                 intervals := (intervals ?s)(0 \<mapsto> 30000 + 30000 * 3),
                 heap := (heap ?s)[0 := (heap ?s ! 0)\<lparr>lastPing :=
                    (if (3::nat) = 0 then lastPing (heap ?s ! 0) else now ?s + 30000 * 3)\<rparr>]\<rparr>,
               replicate 3 (Ping (socket (heap ?s ! 0))))"
    and k: "isActive (heap (fst (stream_run (silent_intervals 0 3) ?s)) ! 0)"
      "sockets (fst (stream_run (silent_intervals 0 3) ?s)) = sockets ?s"
      "timeouts (fst (stream_run (silent_intervals 0 3) ?s)) = timeouts ?s"
    by blast+
  from C8_missed_pongs_only_ping [OF ht] b
  have c: "stream_step (RunInterval 0) ?t =
             (?t\<lparr>intervals := (intervals ?t)(0 := None)\<rparr>, [ClearInterval 0])"
    by blast
  have 1: "snd (stream_run (silent_intervals 0 3) ?s) = [Ping 0, Ping 0, Ping 0]"
    unfolding r v by (simp add: numeral_3_eq_3)
  have 2: "lastPing (heap (fst (stream_run (silent_intervals 0 3) ?s)) ! 0) = 90000"
    unfolding r using h(1) v(4) by simp
  have 3: "snd (stream_step (RunInterval 0) ?t) = [ClearInterval 0]"
    "intervals (fst (stream_step (RunInterval 0) ?t)) 0 = None"
    unfolding c by simp_all
  from 1 2 k v(2,3) 3 show ?thesis by simp
qed

section \<open>Properties of FiMcpClient\<close>

lemma jprop_Some_truthy: "jprop d k = Some v \<Longrightarrow> truthy d"
  by (cases d) simp_all

lemma verifyPasscode_loginUrl_only_when_marked:
  assumes "loginUrl (snd (verifyPasscode JSON_parse callTool ph pc s)) = Some url"
  shows "client s \<and> clientIsConnected s \<and>
         (\<exists>response d. callTool ''fetch_net_worth'' (credentials_args ph pc) = Inr response \<and>
           JSON_parse (first_text response []) = Some d \<and>
           jprop d ''status'' = Some (JStr ''login_required'') \<and>
           jprop d ''login_url'' = Some url \<and> truthy url)"
  using assms
  by (auto simp: verifyPasscode_def inspect_payload_def failed_def Let_def
           split: if_splits sum.splits option.splits)

lemma verifyPasscode_login_required:
  assumes "client s" and "clientIsConnected s"
      and "callTool ''fetch_net_worth'' (credentials_args ph pc) = Inr response"
      and "JSON_parse (first_text response []) = Some d"
      and "jprop d ''status'' = Some (JStr ''login_required'')"
      and "jprop d ''login_url'' = Some url" and "truthy url"
  shows "snd (verifyPasscode JSON_parse callTool ph pc s) =
           \<lparr>status = Failed,
            message = JStr ''Login required. Please visit the login URL first.'',
            token = None, data = None, loginUrl = Some url\<rparr>"
proof -
  from assms(5) have "truthy d" by (rule jprop_Some_truthy)
  with assms show ?thesis
    by (simp add: verifyPasscode_def inspect_payload_def Let_def)
qed

text \<open>
  C5, as stated, fails: \<open>verifyPasscode\<close> has no outcome of its own for a payload that
  asks for a login. On a connected client whose \<open>fetch_net_worth\<close> payload parses to
  \<open>{status: 'login_required', login_url: ...}\<close>, the status of the result is \<open>failed\<close>,
  the status of every other failure.
\<close>

theorem C5_login_required_has_status_failed_counterexample:
  "status (snd (verifyPasscode
         (\<lambda>t. if t = ''payload'' then Some (JObj [(''status'', JStr ''login_required''),
                 (''login_url'', JStr ''https://fi.money/login?token=abc'')]) else None)
         (\<lambda>name args. Inr [(''text'', ''payload'')])
         ''9999999999'' ''1234''
         \<lparr>client = True, transport = True, clientIsConnected = True,
          authenticatedPhoneNumber = None, authenticatedPasscode = None\<rparr>)) = Failed"
  by (simp add: verifyPasscode_def inspect_payload_def Let_def)

text \<open>
  C5, amended. \<open>verifyPasscode\<close> answers a payload that asks for a login with a result of
  status \<open>failed\<close> that carries the login URL. Precisely, for every URL the following
  three say the same: the client is connected and the text returned by \<open>fetch_net_worth\<close>
  parses to a value with \<open>status\<close> \<open>login_required\<close> and that URL, truthy, as
  \<open>login_url\<close>; the result is exactly status \<open>failed\<close>, message
  \<open>Login required. Please visit the login URL first.\<close>, no token, no data, and
  \<open>loginUrl\<close> that URL; the \<open>loginUrl\<close> of the result is that URL. So the status is never
  \<open>authenticated\<close> for such a payload, and a result carries a \<open>loginUrl\<close> in this case
  and in no other.
\<close>

theorem C5_login_required_is_failed_with_login_url:
  "(client s \<and> clientIsConnected s \<and>
    (\<exists>response d. callTool ''fetch_net_worth'' (credentials_args ph pc) = Inr response \<and>
       JSON_parse (first_text response []) = Some d \<and>
       jprop d ''status'' = Some (JStr ''login_required'') \<and>
       jprop d ''login_url'' = Some url \<and> truthy url)) =
   (snd (verifyPasscode JSON_parse callTool ph pc s) =
      \<lparr>status = Failed,
       message = JStr ''Login required. Please visit the login URL first.'',
       token = None, data = None, loginUrl = Some url\<rparr>) \<and>
   (snd (verifyPasscode JSON_parse callTool ph pc s) =
      \<lparr>status = Failed,
       message = JStr ''Login required. Please visit the login URL first.'',
       token = None, data = None, loginUrl = Some url\<rparr>) =
   (loginUrl (snd (verifyPasscode JSON_parse callTool ph pc s)) = Some url)"
proof -
  let ?marked = "client s \<and> clientIsConnected s \<and>
    (\<exists>response d. callTool ''fetch_net_worth'' (credentials_args ph pc) = Inr response \<and>
       JSON_parse (first_text response []) = Some d \<and>
       jprop d ''status'' = Some (JStr ''login_required'') \<and>
       jprop d ''login_url'' = Some url \<and> truthy url)"
  let ?r = "snd (verifyPasscode JSON_parse callTool ph pc s)"
  let ?lr = "\<lparr>status = Failed,
       message = JStr ''Login required. Please visit the login URL first.'',
       token = None, data = None, loginUrl = Some url\<rparr>"
  have 1: "?r = ?lr" if "?marked"
    using that verifyPasscode_login_required [of s callTool ph pc _ JSON_parse _ url] by blast
  have 2: "loginUrl ?r = Some url" if "?r = ?lr"
    using that by simp
  have 3: "?marked" if "loginUrl ?r = Some url"
    using that by (rule verifyPasscode_loginUrl_only_when_marked)
  from 1 2 3 show ?thesis by blast
qed

theorem C5_login_required_is_failed_with_login_url_witness:
  "snd (verifyPasscode
         (\<lambda>t. if t = ''payload'' then Some (JObj [(''status'', JStr ''login_required''),
                 (''login_url'', JStr ''https://fi.money/login?token=abc'')]) else None)
         (\<lambda>name args. Inr [(''text'', ''payload'')])
         ''9999999999'' ''1234''
         \<lparr>client = True, transport = True, clientIsConnected = True,
          authenticatedPhoneNumber = None, authenticatedPasscode = None\<rparr>) =
     \<lparr>status = Failed,
      message = JStr ''Login required. Please visit the login URL first.'',
      token = None, data = None,
      loginUrl = Some (JStr ''https://fi.money/login?token=abc'')\<rparr> \<and>
   loginUrl (snd (verifyPasscode
         (\<lambda>t. if t = ''payload'' then Some (JObj [(''status'', JStr ''login_required''),
                 (''login_url'', JStr ''https://fi.money/login?token=abc'')]) else None)
         (\<lambda>name args. Inr [(''text'', ''payload'')])
         ''9999999999'' ''1234''
         \<lparr>client = True, transport = True, clientIsConnected = True,
          authenticatedPhoneNumber = None, authenticatedPasscode = None\<rparr>)) =
     Some (JStr ''https://fi.money/login?token=abc'')"
proof -
  let ?parse = "\<lambda>t. if t = ''payload'' then Some (JObj [(''status'', JStr ''login_required''),
                 (''login_url'', JStr ''https://fi.money/login?token=abc'')]) else None"
  let ?call = "\<lambda>(name :: string) (args :: jvalue). (Inr [(''text'', ''payload'')] :: string + tool_response)"
  let ?st = "\<lparr>client = True, transport = True, clientIsConnected = True,
          authenticatedPhoneNumber = None, authenticatedPasscode = None\<rparr>"
  let ?d = "JObj [(''status'', JStr ''login_required''),
                 (''login_url'', JStr ''https://fi.money/login?token=abc'')]"
  have h: "client ?st \<and> clientIsConnected ?st \<and>
    (\<exists>response d. ?call ''fetch_net_worth'' (credentials_args ''9999999999'' ''1234'') = Inr response \<and>
       ?parse (first_text response []) = Some d \<and>
       jprop d ''status'' = Some (JStr ''login_required'') \<and>
       jprop d ''login_url'' = Some (JStr ''https://fi.money/login?token=abc'') \<and>
       truthy (JStr ''https://fi.money/login?token=abc''))"
    by (simp add: exI [of _ ?d])
  note C5_login_required_is_failed_with_login_url
    [where s = ?st and callTool = ?call and JSON_parse = ?parse and ph = "''9999999999''"
       and pc = "''1234''" and url = "JStr ''https://fi.money/login?token=abc''"]
  with h show ?thesis by blast
qed

lemma call_and_parse_total:
  "settled_of (call_and_parse tool JSON_parse callTool s) = Fulfilled v \<longleftrightarrow>
     call_and_parse tool JSON_parse callTool s = Inr v"
  by (cases "call_and_parse tool JSON_parse callTool s") simp_all

lemma value_or_null_settled:
  "value_or_null (settled_of r) = (case r of Inl e \<Rightarrow> JNull | Inr v \<Rightarrow> v)"
  by (cases r) simp_all

text \<open>
  C6. \<open>fetchAllFinancialData\<close> always returns a result and never throws: each category
  holds the value of its tool when that call succeeded and \<open>null\<close> when it failed.
\<close>

theorem C6_fetchAll_aggregates_per_category:
  "\<exists>r. fetchAllFinancialData JSON_parse callTool s = Inr r \<and>
     netWorth r = (case getNetWorth JSON_parse callTool s of Inl e \<Rightarrow> JNull | Inr v \<Rightarrow> v) \<and>
     bankTransactions r =
       (case getBankTransactions JSON_parse callTool s of Inl e \<Rightarrow> JNull | Inr v \<Rightarrow> v) \<and>
     creditReport r =
       (case getCreditReport JSON_parse callTool s of Inl e \<Rightarrow> JNull | Inr v \<Rightarrow> v) \<and>
     portfolio r =
       (case getPortfolioPerformance JSON_parse callTool s of Inl e \<Rightarrow> JNull | Inr v \<Rightarrow> v) \<and>
     epf r = (case getEPFDetails JSON_parse callTool s of Inl e \<Rightarrow> JNull | Inr v \<Rightarrow> v)"
  by (simp add: fetchAllFinancialData_def Let_def value_or_null_settled)

theorem C6_fetchAll_aggregates_per_category_witness:
  "fetchAllFinancialData
     (\<lambda>t. if t = ''NW'' then Some (JObj [(''netWorth'', JNum 5)])
          else if t = ''MF'' then Some (JArr [])
          else if t = ''ST'' then Some (JArr [JNum 1])
          else None)
     (\<lambda>name args.
        if name = ''fetch_net_worth'' then Inr [(''text'', ''NW'')]
        else if name = ''fetch_mf_transactions'' then Inr [(''text'', ''MF'')]
        else if name = ''fetch_stock_transactions'' then Inr [(''text'', ''ST'')]
        else if name = ''fetch_epf_details'' then Inr [(''text'', ''<html>'')]
        else Inl ''upstream timeout'')
     \<lparr>client = True, transport = True, clientIsConnected = True,
      authenticatedPhoneNumber = Some ''9999999999'', authenticatedPasscode = Some ''1234''\<rparr> =
   Inr \<lparr>netWorth = JObj [(''netWorth'', JNum 5)],
        bankTransactions = JNull,
        creditReport = JNull,
        portfolio = JObj [(''mutualFunds'', JArr []), (''stocks'', JArr [JNum 1])],
        epf = JNull\<rparr>"
proof -
  let ?parse = "\<lambda>t. if t = ''NW'' then Some (JObj [(''netWorth'', JNum 5)])
          else if t = ''MF'' then Some (JArr [])
          else if t = ''ST'' then Some (JArr [JNum 1])
          else None"
  let ?call = "\<lambda>(name :: string) (args :: jvalue).
        if name = ''fetch_net_worth'' then Inr [(''text'', ''NW'')]
        else if name = ''fetch_mf_transactions'' then Inr [(''text'', ''MF'')]
        else if name = ''fetch_stock_transactions'' then Inr [(''text'', ''ST'')]
        else if name = ''fetch_epf_details'' then Inr [(''text'', ''<html>'')]
        else (Inl ''upstream timeout'' :: string + tool_response)"
  let ?st = "\<lparr>client = True, transport = True, clientIsConnected = True,
      authenticatedPhoneNumber = Some ''9999999999'', authenticatedPasscode = Some ''1234''\<rparr>"
  have g: "guard ?st = None" by (simp add: guard_def)
  have nw: "getNetWorth ?parse ?call ?st = Inr (JObj [(''netWorth'', JNum 5)])"
    by (simp add: getNetWorth_def call_and_parse_def g parse_or_throw_def)
  have bt: "getBankTransactions ?parse ?call ?st = Inl (Err ''upstream timeout'')"
    by (simp add: getBankTransactions_def call_and_parse_def g)
  have cr: "getCreditReport ?parse ?call ?st = Inl (Err ''upstream timeout'')"
    by (simp add: getCreditReport_def call_and_parse_def g)
  have pf: "getPortfolioPerformance ?parse ?call ?st =
      Inr (JObj [(''mutualFunds'', JArr []), (''stocks'', JArr [JNum 1])])"
    by (simp add: getPortfolioPerformance_def g parse_or_throw_def)
  have ep: "getEPFDetails ?parse ?call ?st = Inl JsonSyntaxError"
    by (simp add: getEPFDetails_def call_and_parse_def g parse_or_throw_def)
  from C6_fetchAll_aggregates_per_category [of ?parse ?call ?st]
  obtain r where r: "fetchAllFinancialData ?parse ?call ?st = Inr r"
    "netWorth r = JObj [(''netWorth'', JNum 5)]" "bankTransactions r = JNull"
    "creditReport r = JNull"
    "portfolio r = JObj [(''mutualFunds'', JArr []), (''stocks'', JArr [JNum 1])]"
    "epf r = JNull"
    unfolding nw bt cr pf ep by auto
  then show ?thesis by (cases r) simp
qed

text \<open>
  C10. \<open>authenticateWithPhone\<close> with a phone number (not the empty string, which the
  controller refuses) only stores the number, and \<open>getConnectionStatus\<close> then reports
  \<open>authenticated\<close> as true, although the stored passcode and the connection flag are what
  they were before: no passcode has been verified and no tool has been called. The flag
  is derived from the stored phone number alone: in every state of the client, it is
  true exactly when a phone number is stored that is not the empty string, whatever the
  other fields hold.
\<close>

theorem C10_authenticated_after_phone_number_only:
  assumes "ph \<noteq> []"
  shows "fst (authenticateWithPhone ph s) = s\<lparr>authenticatedPhoneNumber := Some ph\<rparr> \<and>
         authenticated (getConnectionStatus (fst (authenticateWithPhone ph s))) \<and>
         authenticatedPasscode (fst (authenticateWithPhone ph s)) = authenticatedPasscode s \<and>
         clientIsConnected (fst (authenticateWithPhone ph s)) = clientIsConnected s \<and>
         (\<forall>t. authenticated (getConnectionStatus t) =
               (\<exists>n. authenticatedPhoneNumber t = Some n \<and> n \<noteq> [])) \<and>
         (\<forall>t c tr k pc. authenticated (getConnectionStatus
               (t\<lparr>client := c, transport := tr, clientIsConnected := k,
                  authenticatedPasscode := pc\<rparr>)) =
            authenticated (getConnectionStatus t))"
proof -
  have "authenticated (getConnectionStatus t) =
          (\<exists>n. authenticatedPhoneNumber t = Some n \<and> n \<noteq> [])" for t
    by (cases "authenticatedPhoneNumber t") (simp_all add: getConnectionStatus_def)
  then show ?thesis
    using assms by (simp add: authenticateWithPhone_def)
qed

theorem C10_authenticated_after_phone_number_only_witness:
  "authenticated (getConnectionStatus (fst (authenticateWithPhone ''9999999999''
      \<lparr>client = False, transport = False, clientIsConnected = False,
       authenticatedPhoneNumber = None, authenticatedPasscode = None\<rparr>))) \<and>
   authenticatedPasscode (fst (authenticateWithPhone ''9999999999''
      \<lparr>client = False, transport = False, clientIsConnected = False,
       authenticatedPhoneNumber = None, authenticatedPasscode = None\<rparr>)) = None \<and>
   \<not> authenticated (getConnectionStatus
      \<lparr>client = True, transport = True, clientIsConnected = True,
       authenticatedPhoneNumber = None, authenticatedPasscode = Some ''1234''\<rparr>)"
proof -
  have "''9999999999'' \<noteq> []" by simp
  from C10_authenticated_after_phone_number_only [OF this] show ?thesis by simp
qed

lemma authenticated_iff_phone_stored:
  "authenticated (getConnectionStatus s) \<longleftrightarrow> \<not> absent (authenticatedPhoneNumber s)"
  by (simp add: getConnectionStatus_def)

lemma authenticateUser_accepts_only_a_number:
  assumes "authenticateUser phone fiMcpClient = Inr (s', r)"
  shows "authenticated (getConnectionStatus s')"
  using assms
  by (cases phone)
     (auto simp: authenticateUser_def authenticateWithPhone_def getConnectionStatus_def
           split: if_splits option.splits)

end
